theory Spec2Isabelle
  imports Main "HOL-Library.Word" "HOL-Library.AList"
begin

unbundle bit_operations_syntax

section \<open>Data model of AEUtilities.c\<close>

text \<open>
  The C types of the file. \<open>UInt32\<close> fields are 32-bit words; a C \<open>int\<close> is a 32-bit word
  read with \<open>sint\<close>; a conversion between the two keeps the bits. Addresses are abstract
  natural numbers with \<open>NULL = 0\<close>; a \<open>size_t\<close> is a natural number below \<open>2 ^ 64\<close>.
\<close>

type_synonym UInt32 = "32 word"
type_synonym cint = "32 word"
type_synonym addr = nat
type_synonym byte = "8 word"

abbreviation (input) NULL :: addr where
  "NULL \<equiv> 0"

text \<open>
  \<open>AudioStreamBasicDescription\<close>, \<open>AudioBuffer\<close> and \<open>AudioBufferList\<close> are declared in
  the CoreAudio headers, which AEUtilities.h includes. Of the format descriptor only the
  fields that AEUtilities.c reads are kept. \<open>mBuffers\<close> is the variable-length trailing
  array; its length is the number of descriptor slots the storage has room for.
\<close>

record AudioStreamBasicDescription =
  mFormatFlags :: UInt32
  mBytesPerFrame :: UInt32
  mChannelsPerFrame :: UInt32
  mBitsPerChannel :: UInt32

record AudioBuffer =
  mNumberChannels :: UInt32
  mDataByteSize :: UInt32
  mData :: addr

record AudioBufferList =
  mNumberBuffers :: UInt32
  mBuffers :: "AudioBuffer list"

text \<open>The flag constant of CoreAudioTypes.h, \<open>1 << 5\<close>.\<close>

definition kAudioFormatFlagIsNonInterleaved :: UInt32 where
  "kAudioFormatFlagIsNonInterleaved = 32"

text \<open>The condition \<open>audioFormat->mFormatFlags & kAudioFormatFlagIsNonInterleaved\<close>.\<close>

definition isNonInterleaved :: "AudioStreamBasicDescription \<Rightarrow> bool" where
  "isNonInterleaved audioFormat \<longleftrightarrow>
     mFormatFlags audioFormat AND kAudioFormatFlagIsNonInterleaved \<noteq> 0"

text \<open>
  Sizes on the LP64 targets of the library: \<open>AudioBuffer\<close> is two \<open>UInt32\<close> and a pointer,
  \<open>AudioBufferList\<close> is a \<open>UInt32\<close>, padding, and one \<open>AudioBuffer\<close>; the array starts at
  offset 8.
\<close>

definition sizeof_AudioBuffer :: nat where
  "sizeof_AudioBuffer = 16"

definition sizeof_AudioBufferList :: nat where
  "sizeof_AudioBufferList = 24"

definition offsetof_mBuffers :: nat where
  "offsetof_mBuffers = 8"

text \<open>The conversion of an \<open>int\<close> to \<open>size_t\<close>: the value modulo \<open>2 ^ 64\<close>.\<close>

definition size_t_of_int :: "int \<Rightarrow> nat" where
  "size_t_of_int v = nat (v mod 2 ^ 64)"

text \<open>How many descriptor slots a region of the given byte size holds.\<close>

definition slotsIn :: "nat \<Rightarrow> nat" where
  "slotsIn nbytes = (nbytes - offsetof_mBuffers) div sizeof_AudioBuffer"

section \<open>Errors and the heap\<close>

text \<open>
  What is undefined behaviour or a trap in C is an error value of the model: a read or write
  through a pointer that is not a live block of the right kind, an access outside a block,
  \<open>free\<close> of a pointer that is not live, a division by zero and a failed \<open>assert\<close>.
  An allocation failure is not an error: \<open>malloc\<close> returns \<open>NULL\<close>.
\<close>

datatype error = InvalidPointer | OutOfBounds | InvalidFree | DivisionByZero | AssertionFailed

definition bindE :: "error + 'a \<Rightarrow> ('a \<Rightarrow> error + 'b) \<Rightarrow> error + 'b" where
  "bindE m f = (case m of Inl e \<Rightarrow> Inl e | Inr x \<Rightarrow> f x)"

datatype obj = ListObj AudioBufferList | DataObj "byte list"

text \<open>
  The heap holds the live blocks of \<open>malloc\<close>, newest first. \<open>fails\<close> says which calls of
  \<open>malloc\<close>, counted by \<open>ncalls\<close>, return \<open>NULL\<close>. Fresh storage is not initialised: what it
  holds is given by the three \<open>junk\<close> fields, which are arbitrary.
\<close>

record heap =
  blocks :: "(addr \<times> obj) list"
  ncalls :: nat
  fails :: "nat \<Rightarrow> bool"
  junkWord :: UInt32
  junkBuffer :: AudioBuffer
  junkByte :: byte

definition lookup :: "heap \<Rightarrow> addr \<Rightarrow> obj option" where
  "lookup h p = (if p = NULL then None else map_of (blocks h) p)"

definition freshAddr :: "heap \<Rightarrow> addr" where
  "freshAddr h = Suc (foldr max (map fst (blocks h)) 0)"

definition alloc :: "heap \<Rightarrow> obj \<Rightarrow> addr \<times> heap" where
  "alloc h ob =
     (if fails h (ncalls h) then (NULL, h\<lparr>ncalls := Suc (ncalls h)\<rparr>)
      else (freshAddr h,
            h\<lparr>blocks := (freshAddr h, ob) # blocks h, ncalls := Suc (ncalls h)\<rparr>))"

text \<open>\<open>malloc\<close> of a block that the caller uses as an \<open>AudioBufferList\<close>.\<close>

definition malloc_AudioBufferList :: "heap \<Rightarrow> nat \<Rightarrow> addr \<times> heap" where
  "malloc_AudioBufferList h nbytes =
     alloc h (ListObj \<lparr>mNumberBuffers = junkWord h,
                       mBuffers = replicate (slotsIn nbytes) (junkBuffer h)\<rparr>)"

text \<open>\<open>malloc\<close> of a block of sample bytes.\<close>

definition malloc_bytes :: "heap \<Rightarrow> nat \<Rightarrow> addr \<times> heap" where
  "malloc_bytes h nbytes = alloc h (DataObj (replicate nbytes (junkByte h)))"

definition free :: "heap \<Rightarrow> addr \<Rightarrow> error + heap" where
  "free h p =
     (if p = NULL then Inr h
      else if p \<in> fst ` set (blocks h) then Inr (h\<lparr>blocks := AList.delete p (blocks h)\<rparr>)
      else Inl InvalidFree)"

definition loadSlot :: "AudioBufferList \<Rightarrow> nat \<Rightarrow> error + AudioBuffer" where
  "loadSlot l i = (if i < length (mBuffers l) then Inr (mBuffers l ! i) else Inl OutOfBounds)"

definition storeSlot ::
  "AudioBufferList \<Rightarrow> nat \<Rightarrow> (AudioBuffer \<Rightarrow> AudioBuffer) \<Rightarrow> error + AudioBufferList" where
  "storeSlot l i f =
     (if i < length (mBuffers l) then Inr (l\<lparr>mBuffers := (mBuffers l)[i := f (mBuffers l ! i)]\<rparr>)
      else Inl OutOfBounds)"

definition loadList :: "heap \<Rightarrow> addr \<Rightarrow> error + AudioBufferList" where
  "loadList h p = (case lookup h p of Some (ListObj l) \<Rightarrow> Inr l | _ \<Rightarrow> Inl InvalidPointer)"

definition storeList :: "heap \<Rightarrow> addr \<Rightarrow> AudioBufferList \<Rightarrow> heap" where
  "storeList h p l = h\<lparr>blocks := AList.update p (ListObj l) (blocks h)\<rparr>"

definition loadBuffer :: "heap \<Rightarrow> addr \<Rightarrow> nat \<Rightarrow> error + AudioBuffer" where
  "loadBuffer h p i = bindE (loadList h p) (\<lambda>l. loadSlot l i)"

definition storeBuffer ::
  "heap \<Rightarrow> addr \<Rightarrow> nat \<Rightarrow> (AudioBuffer \<Rightarrow> AudioBuffer) \<Rightarrow> error + heap" where
  "storeBuffer h p i f =
     bindE (loadList h p) (\<lambda>l. bindE (storeSlot l i f) (\<lambda>l'. Inr (storeList h p l')))"

definition storeNumberBuffers :: "heap \<Rightarrow> addr \<Rightarrow> UInt32 \<Rightarrow> error + heap" where
  "storeNumberBuffers h p v =
     bindE (loadList h p) (\<lambda>l. Inr (storeList h p (l\<lparr>mNumberBuffers := v\<rparr>)))"

text \<open>
  \<open>memcpy\<close> of \<open>n\<close> bytes from the start of one block to the start of another. With
  \<open>n = 0\<close> nothing is read or written.
\<close>

definition memcpy :: "heap \<Rightarrow> addr \<Rightarrow> addr \<Rightarrow> nat \<Rightarrow> error + heap" where
  "memcpy h dst src n =
     (if n = 0 then Inr h
      else (case (lookup h dst, lookup h src) of
              (Some (DataObj d), Some (DataObj s)) \<Rightarrow>
                 if n \<le> length d \<and> n \<le> length s
                 then Inr (h\<lparr>blocks := AList.update dst (DataObj (take n s @ drop n d)) (blocks h)\<rparr>)
                 else Inl OutOfBounds
            | _ \<Rightarrow> Inl InvalidPointer))"

section \<open>AEAllocateAndInitAudioBufferList\<close>

definition numberOfBuffers :: "AudioStreamBasicDescription \<Rightarrow> cint" where
  "numberOfBuffers audioFormat =
     (if isNonInterleaved audioFormat then mChannelsPerFrame audioFormat else 1)"

definition channelsPerBuffer :: "AudioStreamBasicDescription \<Rightarrow> cint" where
  "channelsPerBuffer audioFormat =
     (if isNonInterleaved audioFormat then 1 else mChannelsPerFrame audioFormat)"

definition bytesPerBuffer :: "AudioStreamBasicDescription \<Rightarrow> cint \<Rightarrow> cint" where
  "bytesPerBuffer audioFormat frameCount = mBytesPerFrame audioFormat * frameCount"

text \<open>
  \<open>sizeof(AudioBufferList) + (numberOfBuffers-1)*sizeof(AudioBuffer)\<close> with
  \<open>numberOfBuffers\<close> an \<open>int\<close>: the difference is converted to \<open>size_t\<close>, and the sum wraps.
\<close>

definition listBytes :: "cint \<Rightarrow> nat" where
  "listBytes n =
     (sizeof_AudioBufferList + size_t_of_int (sint n - 1) * sizeof_AudioBuffer) mod 2 ^ 64"

text \<open>The clean-up loop \<open>for ( int j=0; j<i; j++ ) free(audio->mBuffers[j].mData)\<close>.\<close>

function freeFirst :: "heap \<Rightarrow> addr \<Rightarrow> nat \<Rightarrow> nat \<Rightarrow> error + heap" where
  "freeFirst h audio j i =
     (if j < i then
        bindE (loadBuffer h audio j) (\<lambda>b.
        bindE (free h (mData b)) (\<lambda>h'.
        freeFirst h' audio (Suc j) i))
      else Inr h)"
  by pat_completeness auto
termination
  by (relation "measure (\<lambda>(h, audio, j, i). i - j)") auto

declare freeFirst.simps [simp del]

text \<open>
  Lines 22 to 31: the data pointer of buffer \<open>i\<close>. The result is \<open>False\<close> when the
  allocation failed, the clean-up ran and the function returns \<open>NULL\<close>.
\<close>

definition allocData :: "addr \<Rightarrow> cint \<Rightarrow> nat \<Rightarrow> heap \<Rightarrow> error + (bool \<times> heap)" where
  "allocData audio bytes i h =
     (if 0 < sint bytes then
        (case malloc_bytes h (size_t_of_int (sint bytes)) of (p, h1) \<Rightarrow>
           bindE (storeBuffer h1 audio i (\<lambda>b. b\<lparr>mData := p\<rparr>)) (\<lambda>h2.
           if p = NULL then
             bindE (freeFirst h2 audio 0 i) (\<lambda>h3.
             bindE (free h3 audio) (\<lambda>h4.
             Inr (False, h4)))
           else Inr (True, h2)))
      else
        bindE (storeBuffer h audio i (\<lambda>b. b\<lparr>mData := NULL\<rparr>)) (\<lambda>h2.
        Inr (True, h2)))"

function allocLoop ::
  "addr \<Rightarrow> cint \<Rightarrow> cint \<Rightarrow> cint \<Rightarrow> nat \<Rightarrow> heap \<Rightarrow> error + (addr \<times> heap)" where
  "allocLoop audio n channels bytes i h =
     (if int i < sint n then
        bindE (allocData audio bytes i h) (\<lambda>(ok, h2).
        if \<not> ok then Inr (NULL, h2)
        else
          bindE (storeBuffer h2 audio i (\<lambda>b. b\<lparr>mDataByteSize := bytes\<rparr>)) (\<lambda>h3.
          bindE (storeBuffer h3 audio i (\<lambda>b. b\<lparr>mNumberChannels := channels\<rparr>)) (\<lambda>h4.
          allocLoop audio n channels bytes (Suc i) h4)))
      else Inr (audio, h))"
  by pat_completeness auto
termination
  by (relation "measure (\<lambda>(audio, n, channels, bytes, i, h). nat (sint n) - i)") auto

declare allocLoop.simps [simp del]

definition AEAllocateAndInitAudioBufferList ::
  "AudioStreamBasicDescription \<Rightarrow> cint \<Rightarrow> heap \<Rightarrow> error + (addr \<times> heap)" where
  "AEAllocateAndInitAudioBufferList audioFormat frameCount h =
     (case malloc_AudioBufferList h (listBytes (numberOfBuffers audioFormat)) of (audio, h1) \<Rightarrow>
        if audio = NULL then Inr (NULL, h1)
        else
          bindE (storeNumberBuffers h1 audio (numberOfBuffers audioFormat)) (\<lambda>h2.
          allocLoop audio (numberOfBuffers audioFormat) (channelsPerBuffer audioFormat)
            (bytesPerBuffer audioFormat frameCount) 0 h2))"

section \<open>AECopyAudioBufferList\<close>

text \<open>
  \<open>sizeof(AudioBufferList) + (original->mNumberBuffers-1)*sizeof(AudioBuffer)\<close>: here the
  difference is computed in \<open>UInt32\<close> and wraps at 0.
\<close>

definition copyBytes :: "UInt32 \<Rightarrow> nat" where
  "copyBytes n = (sizeof_AudioBufferList + unat (n - 1) * sizeof_AudioBuffer) mod 2 ^ 64"

text \<open>Lines 45 to 53, one round of the loop; \<open>False\<close> as in \<open>allocData\<close>.\<close>

definition copyBody :: "addr \<Rightarrow> addr \<Rightarrow> nat \<Rightarrow> heap \<Rightarrow> error + (bool \<times> heap)" where
  "copyBody original audio i h =
     bindE (loadBuffer h original i) (\<lambda>src.
     case malloc_bytes h (unat (mDataByteSize src)) of (p, h1) \<Rightarrow>
       bindE (storeBuffer h1 audio i (\<lambda>b. b\<lparr>mData := p\<rparr>)) (\<lambda>h2.
       if p = NULL then
         bindE (freeFirst h2 audio 0 i) (\<lambda>h3.
         bindE (free h3 audio) (\<lambda>h4.
         Inr (False, h4)))
       else
         bindE (loadBuffer h2 original i) (\<lambda>src1.
         bindE (storeBuffer h2 audio i (\<lambda>b. b\<lparr>mDataByteSize := mDataByteSize src1\<rparr>)) (\<lambda>h3.
         bindE (loadBuffer h3 original i) (\<lambda>src2.
         bindE (storeBuffer h3 audio i (\<lambda>b. b\<lparr>mNumberChannels := mNumberChannels src2\<rparr>)) (\<lambda>h4.
         bindE (loadBuffer h4 audio i) (\<lambda>dst.
         bindE (loadBuffer h4 original i) (\<lambda>src3.
         bindE (memcpy h4 (mData dst) (mData src3) (unat (mDataByteSize src3))) (\<lambda>h5.
         Inr (True, h5))))))))))"

function copyLoop :: "addr \<Rightarrow> addr \<Rightarrow> nat \<Rightarrow> heap \<Rightarrow> error + (addr \<times> heap)" where
  "copyLoop original audio i h =
     bindE (loadList h original) (\<lambda>orig.
     if i < unat (mNumberBuffers orig) then
       bindE (copyBody original audio i h) (\<lambda>(ok, h2).
       if \<not> ok then Inr (NULL, h2)
       else copyLoop original audio (Suc i) h2)
     else Inr (audio, h))"
  by pat_completeness auto
termination
proof (relation "measure (\<lambda>(original, audio, i, h). 2 ^ 32 - i)")
  show "wf (measure (\<lambda>(original, audio, i, h). 2 ^ 32 - i))"
    by simp
next
  fix original audio :: addr and i :: nat and h :: heap and orig :: AudioBufferList
    and x :: "bool \<times> heap" and ok :: bool and h2 :: heap
  assume "i < unat (mNumberBuffers orig)"
  moreover have "unat (mNumberBuffers orig) < 2 ^ 32"
    using unsigned_less [of "mNumberBuffers orig"] by simp
  ultimately show "((original, audio, Suc i, h2), (original, audio, i, h))
      \<in> measure (\<lambda>(original, audio, i, h). 2 ^ 32 - i)"
    by simp
qed

declare copyLoop.simps [simp del]

definition AECopyAudioBufferList :: "addr \<Rightarrow> heap \<Rightarrow> error + (addr \<times> heap)" where
  "AECopyAudioBufferList original h =
     bindE (loadList h original) (\<lambda>orig.
     case malloc_AudioBufferList h (copyBytes (mNumberBuffers orig)) of (audio, h1) \<Rightarrow>
       if audio = NULL then Inr (NULL, h1)
       else
         bindE (loadList h1 original) (\<lambda>orig1.
         bindE (storeNumberBuffers h1 audio (mNumberBuffers orig1)) (\<lambda>h2.
         copyLoop original audio 0 h2)))"

section \<open>AEFreeAudioBufferList\<close>

function freeLoop :: "heap \<Rightarrow> addr \<Rightarrow> nat \<Rightarrow> error + heap" where
  "freeLoop h bufferList i =
     bindE (loadList h bufferList) (\<lambda>l.
     if i < unat (mNumberBuffers l) then
       bindE (loadSlot l i) (\<lambda>b.
       if mData b \<noteq> NULL then
         bindE (free h (mData b)) (\<lambda>h'. freeLoop h' bufferList (Suc i))
       else freeLoop h bufferList (Suc i))
     else Inr h)"
  by pat_completeness auto
termination
proof (relation "measure (\<lambda>(h, bufferList, i). 2 ^ 32 - i)")
  show "wf (measure (\<lambda>(h, bufferList, i). 2 ^ 32 - i))"
    by simp
next
  fix h h' :: heap and bufferList :: addr and i :: nat and l :: AudioBufferList
    and b :: AudioBuffer
  assume "i < unat (mNumberBuffers l)"
  moreover have "unat (mNumberBuffers l) < 2 ^ 32"
    using unsigned_less [of "mNumberBuffers l"] by simp
  ultimately show "((h', bufferList, Suc i), (h, bufferList, i))
      \<in> measure (\<lambda>(h, bufferList, i). 2 ^ 32 - i)"
    by simp
next
  fix h :: heap and bufferList :: addr and i :: nat and l :: AudioBufferList
    and b :: AudioBuffer
  assume "i < unat (mNumberBuffers l)"
  moreover have "unat (mNumberBuffers l) < 2 ^ 32"
    using unsigned_less [of "mNumberBuffers l"] by simp
  ultimately show "((h, bufferList, Suc i), (h, bufferList, i))
      \<in> measure (\<lambda>(h, bufferList, i). 2 ^ 32 - i)"
    by simp
qed

declare freeLoop.simps [simp del]

definition AEFreeAudioBufferList :: "heap \<Rightarrow> addr \<Rightarrow> error + heap" where
  "AEFreeAudioBufferList h bufferList =
     bindE (freeLoop h bufferList 0) (\<lambda>h'. free h' bufferList)"

section \<open>AEInitAudioBufferList\<close>

text \<open>
  The caller's region is passed by reference; the model takes what it holds and returns
  what it holds afterwards. \<open>listSize\<close> is what the caller says its size is.
\<close>

function initLoop ::
  "AudioBufferList \<Rightarrow> AudioStreamBasicDescription \<Rightarrow> addr \<Rightarrow> cint \<Rightarrow> nat
     \<Rightarrow> error + AudioBufferList" where
  "initLoop list audioFormat data dataSize i =
     (if i < unat (mNumberBuffers list) then
        bindE (storeSlot list 0 (\<lambda>b. b\<lparr>mNumberChannels :=
                 (if isNonInterleaved audioFormat then 1 else mChannelsPerFrame audioFormat)\<rparr>)) (\<lambda>l1.
        bindE (storeSlot l1 0 (\<lambda>b. b\<lparr>mData :=
                 data + unat (word_of_nat i * (dataSize div mNumberBuffers l1))\<rparr>)) (\<lambda>l2.
        bindE (storeSlot l2 0 (\<lambda>b. b\<lparr>mDataByteSize := dataSize div mNumberBuffers l2\<rparr>)) (\<lambda>l3.
        initLoop l3 audioFormat data dataSize (Suc i))))
      else Inr list)"
  by pat_completeness auto
termination
proof (relation "measure (\<lambda>(list, audioFormat, data, dataSize, i). 2 ^ 32 - i)")
  show "wf (measure (\<lambda>(list, audioFormat, data, dataSize, i). 2 ^ 32 - i))"
    by simp
next
  fix list l3 :: AudioBufferList and audioFormat :: AudioStreamBasicDescription
    and data :: addr and dataSize :: cint and i :: nat
  assume "i < unat (mNumberBuffers list)"
  moreover have "unat (mNumberBuffers list) < 2 ^ 32"
    using unsigned_less [of "mNumberBuffers list"] by simp
  ultimately show "((l3, audioFormat, data, dataSize, Suc i), (list, audioFormat, data, dataSize, i))
      \<in> measure (\<lambda>(list, audioFormat, data, dataSize, i). 2 ^ 32 - i)"
    by simp
qed

declare initLoop.simps [simp del]

definition AEInitAudioBufferList ::
  "AudioBufferList \<Rightarrow> cint \<Rightarrow> AudioStreamBasicDescription \<Rightarrow> addr \<Rightarrow> cint
     \<Rightarrow> error + AudioBufferList" where
  "AEInitAudioBufferList list listSize audioFormat data dataSize =
     (let list1 = list\<lparr>mNumberBuffers :=
            (if isNonInterleaved audioFormat then mChannelsPerFrame audioFormat else 1)\<rparr>
      in if \<not> (mNumberBuffers list1 = 1
               \<or> sizeof_AudioBufferList + sizeof_AudioBuffer \<le> size_t_of_int (sint listSize))
         then Inl AssertionFailed
         else initLoop list1 audioFormat data dataSize 0)"

section \<open>AEGetNumberOfFramesInAudioBufferList\<close>

text \<open>
  \<open>oNumberOfChannels\<close> is \<open>None\<close> for a null pointer and \<open>Some v\<close> for a location that holds
  \<open>v\<close>; the function returns the frame count and what the location holds afterwards. The
  operands of both divisions are unsigned.
\<close>

definition AEGetNumberOfFramesInAudioBufferList ::
  "AudioBufferList \<Rightarrow> AudioStreamBasicDescription \<Rightarrow> cint option
     \<Rightarrow> error + (cint \<times> cint option)" where
  "AEGetNumberOfFramesInAudioBufferList list audioFormat oNumberOfChannels =
     bindE (if isNonInterleaved audioFormat then Inr (mNumberBuffers list)
            else bindE (loadSlot list 0) (\<lambda>b. Inr (mNumberChannels b))) (\<lambda>channelCount.
     let out = (case oNumberOfChannels of None \<Rightarrow> None | Some v \<Rightarrow> Some channelCount) in
     bindE (loadSlot list 0) (\<lambda>b.
     if (mBitsPerChannel audioFormat div 8) * channelCount = 0 then Inl DivisionByZero
     else Inr (mDataByteSize b div ((mBitsPerChannel audioFormat div 8) * channelCount), out)))"

section \<open>Ownership\<close>

text \<open>
  The data pointers of the given descriptors are distinct live blocks, none of them null
  and none of them the container itself.
\<close>

definition ownedSlots :: "heap \<Rightarrow> addr \<Rightarrow> AudioBuffer list \<Rightarrow> bool" where
  "ownedSlots h audio bs \<longleftrightarrow>
     distinct (map mData bs)
     \<and> list_all (\<lambda>b. mData b \<noteq> NULL \<and> mData b \<noteq> audio \<and> mData b \<in> fst ` set (blocks h)) bs"

text \<open>
  A container that owns its buffers: it has room for the buffers it counts, and the data
  pointers that are not null are owned.
\<close>

definition ownedList :: "heap \<Rightarrow> addr \<Rightarrow> bool" where
  "ownedList h p \<longleftrightarrow>
     (case lookup h p of
        Some (ListObj l) \<Rightarrow>
          unat (mNumberBuffers l) \<le> length (mBuffers l)
          \<and> ownedSlots h p (filter (\<lambda>b. mData b \<noteq> NULL)
               (take (unat (mNumberBuffers l)) (mBuffers l)))
      | _ \<Rightarrow> False)"

text \<open>
  The bytes of a data block; a buffer whose bytes can be read (nothing is read when its
  size is 0); a container whose counted buffers can all be read.
\<close>

definition bytesAt :: "heap \<Rightarrow> addr \<Rightarrow> byte list" where
  "bytesAt h p = (case lookup h p of Some (DataObj bs) \<Rightarrow> bs | _ \<Rightarrow> [])"

definition readableBuffer :: "heap \<Rightarrow> AudioBuffer \<Rightarrow> bool" where
  "readableBuffer h b \<longleftrightarrow>
     mDataByteSize b = 0
     \<or> (case lookup h (mData b) of
           Some (DataObj bs) \<Rightarrow> unat (mDataByteSize b) \<le> length bs
         | _ \<Rightarrow> False)"

definition validList :: "heap \<Rightarrow> addr \<Rightarrow> bool" where
  "validList h p \<longleftrightarrow>
     (case lookup h p of
        Some (ListObj l) \<Rightarrow>
          unat (mNumberBuffers l) \<le> length (mBuffers l)
          \<and> list_all (readableBuffer h) (take (unat (mNumberBuffers l)) (mBuffers l))
      | _ \<Rightarrow> False)"

text \<open>Two heaps with the same allocator behaviour and the same uninitialised storage.\<close>

definition sameAllocator :: "heap \<Rightarrow> heap \<Rightarrow> bool" where
  "sameAllocator h h' \<longleftrightarrow>
     fails h' = fails h \<and> junkWord h' = junkWord h \<and> junkBuffer h' = junkBuffer h
     \<and> junkByte h' = junkByte h"

section \<open>Example inputs\<close>

text \<open>
  The two formats of the concrete scenarios: two channels, 4 bytes per frame, 16 bits per
  channel, non-interleaved and interleaved; an interleaved stereo format of 24-bit samples
  in 32-bit containers; a heap with no live block whose allocator never fails, and one whose
  allocator fails at one call.
\<close>

definition stereoNonInterleaved :: AudioStreamBasicDescription where
  "stereoNonInterleaved =
     \<lparr>mFormatFlags = 32, mBytesPerFrame = 4, mChannelsPerFrame = 2, mBitsPerChannel = 16\<rparr>"

definition stereoInterleaved :: AudioStreamBasicDescription where
  "stereoInterleaved =
     \<lparr>mFormatFlags = 0, mBytesPerFrame = 4, mChannelsPerFrame = 2, mBitsPerChannel = 16\<rparr>"

definition stereo24in32 :: AudioStreamBasicDescription where
  "stereo24in32 =
     \<lparr>mFormatFlags = 0, mBytesPerFrame = 8, mChannelsPerFrame = 2, mBitsPerChannel = 24\<rparr>"

definition emptyHeap :: heap where
  "emptyHeap =
     \<lparr>blocks = [], ncalls = 0, fails = (\<lambda>k. False), junkWord = 7,
      junkBuffer = \<lparr>mNumberChannels = 9, mDataByteSize = 9, mData = 9\<rparr>, junkByte = 5\<rparr>"

definition heapFailingAt :: "nat \<Rightarrow> heap" where
  "heapFailingAt n = emptyHeap\<lparr>fails := (\<lambda>k. k = n)\<rparr>"

text \<open>
  Two heaps that hold one container at address 1, with the allocator failing at one call:
  a container of two mono buffers of four bytes each, at addresses 2 and 3, and a container
  of two buffers of no bytes with null data pointers, as the allocation of zero frames
  leaves them.
\<close>

definition stereoList :: AudioBufferList where
  "stereoList =
     \<lparr>mNumberBuffers = 2,
        mBuffers = [\<lparr>mNumberChannels = 1, mDataByteSize = 4, mData = 2\<rparr>,
                    \<lparr>mNumberChannels = 1, mDataByteSize = 4, mData = 3\<rparr>]\<rparr>"

definition stereoHeap :: "nat \<Rightarrow> heap" where
  "stereoHeap n =
     heapFailingAt n\<lparr>blocks := [(3, DataObj [5, 6, 7, 8]), (2, DataObj [1, 2, 3, 4]),
                                (1, ListObj stereoList)],
                     ncalls := 3\<rparr>"

definition silentList :: AudioBufferList where
  "silentList =
     \<lparr>mNumberBuffers = 2,
        mBuffers = [\<lparr>mNumberChannels = 1, mDataByteSize = 0, mData = NULL\<rparr>,
                    \<lparr>mNumberChannels = 1, mDataByteSize = 0, mData = NULL\<rparr>]\<rparr>"

definition silentHeap :: "nat \<Rightarrow> heap" where
  "silentHeap n = heapFailingAt n\<lparr>blocks := [(1, ListObj silentList)], ncalls := 1\<rparr>"

section \<open>Basic facts\<close>

lemma bindE_simps [simp]: "bindE (Inl e) f = Inl e" "bindE (Inr x) f = f x"
  by (simp_all add: bindE_def)

lemmas sizes = sizeof_AudioBuffer_def sizeof_AudioBufferList_def offsetof_mBuffers_def

lemma isNonInterleaved_examples [simp]:
  "isNonInterleaved stereoNonInterleaved" "\<not> isNonInterleaved stereoInterleaved"
  "\<not> isNonInterleaved stereo24in32"
  by (simp_all add: isNonInterleaved_def kAudioFormatFlagIsNonInterleaved_def
      stereoNonInterleaved_def stereoInterleaved_def stereo24in32_def)

lemma stereoNonInterleaved_fields [simp]:
  "mBytesPerFrame stereoNonInterleaved = 4" "mChannelsPerFrame stereoNonInterleaved = 2"
  "mBitsPerChannel stereoNonInterleaved = 16"
  by (simp_all add: stereoNonInterleaved_def)

lemma stereoInterleaved_fields [simp]:
  "mBytesPerFrame stereoInterleaved = 4" "mChannelsPerFrame stereoInterleaved = 2"
  "mBitsPerChannel stereoInterleaved = 16"
  by (simp_all add: stereoInterleaved_def)

lemma stereo24in32_fields [simp]:
  "mBytesPerFrame stereo24in32 = 8" "mChannelsPerFrame stereo24in32 = 2"
  "mBitsPerChannel stereo24in32 = 24"
  by (simp_all add: stereo24in32_def)

lemma replicate_two: "replicate 2 x = [x, x]"
  by (simp add: numeral_2_eq_2)

text \<open>The equations that evaluate the functions on a concrete heap.\<close>

lemmas eval_heap = malloc_AudioBufferList_def malloc_bytes_def alloc_def freshAddr_def
  listBytes_def copyBytes_def slotsIn_def size_t_of_int_def sizes
  numberOfBuffers_def channelsPerBuffer_def bytesPerBuffer_def
  storeNumberBuffers_def storeBuffer_def storeSlot_def loadBuffer_def loadSlot_def loadList_def
  storeList_def lookup_def free_def memcpy_def
  allocLoop.simps allocData_def freeFirst.simps copyLoop.simps copyBody_def freeLoop.simps
  emptyHeap_def heapFailingAt_def replicate_two

section \<open>The heap\<close>

subsection \<open>Association lists\<close>

lemma delete_eq_restrict: "AList.delete k al = AList.restrict (- {k}) al"
  by (induction al) (auto simp add: AList.restrict_eq)

lemma restrict_cong_set: "A \<inter> fst ` set al = B \<inter> fst ` set al \<Longrightarrow> AList.restrict A al = AList.restrict B al"
  by (induction al) (auto simp add: AList.restrict_eq)

lemma restrict_all: "fst ` set al \<subseteq> A \<Longrightarrow> AList.restrict A al = al"
  by (induction al) (auto simp add: AList.restrict_eq)

lemma restrict_update_out: "x \<notin> D \<Longrightarrow> AList.restrict D (AList.update x y al) = AList.restrict D al"
  by (induction al) (auto simp add: AList.restrict_eq)

lemma restrict_UNIV [simp]: "AList.restrict UNIV al = al"
  by (simp add: restrict_all)

lemma foldr_max_ge: "k \<in> set ks \<Longrightarrow> k \<le> foldr max ks (0::nat)"
  by (induction ks) (auto simp add: max_def)

subsection \<open>The allocator\<close>

lemma freshAddr_notin: "freshAddr h \<notin> fst ` set (blocks h)"
proof
  assume "freshAddr h \<in> fst ` set (blocks h)"
  then have "freshAddr h \<in> set (map fst (blocks h))" by simp
  then have "freshAddr h \<le> foldr max (map fst (blocks h)) 0" by (rule foldr_max_ge)
  then show False by (simp add: freshAddr_def)
qed

lemma freshAddr_nonnull [simp]: "freshAddr h \<noteq> NULL"
  by (simp add: freshAddr_def)

lemma lookup_freshAddr [simp]: "lookup h (freshAddr h) = None"
  using freshAddr_notin [of h] by (simp add: lookup_def map_of_eq_None_iff)

lemma lookup_SomeD: "lookup h p = Some x \<Longrightarrow> p \<noteq> NULL \<and> p \<in> fst ` set (blocks h)"
  by (cases "p = NULL") (auto simp add: lookup_def dom_map_of_conv_image_fst [symmetric])

lemma lookup_live_not_fresh: "lookup h p = Some x \<Longrightarrow> p \<noteq> freshAddr h"
  by auto

lemma malloc_bytes_fail:
  "fails h (ncalls h) \<Longrightarrow> malloc_bytes h n = (NULL, h\<lparr>ncalls := Suc (ncalls h)\<rparr>)"
  by (simp add: malloc_bytes_def alloc_def)

lemma malloc_bytes_ok:
  "\<not> fails h (ncalls h) \<Longrightarrow> malloc_bytes h n =
     (freshAddr h, h\<lparr>blocks := (freshAddr h, DataObj (replicate n (junkByte h))) # blocks h,
                     ncalls := Suc (ncalls h)\<rparr>)"
  by (simp add: malloc_bytes_def alloc_def)

subsection \<open>Loads and stores\<close>

lemma loadList_eq [simp]: "lookup h p = Some (ListObj l) \<Longrightarrow> loadList h p = Inr l"
  by (simp add: loadList_def)

lemma loadList_InrD: "loadList h p = Inr l \<Longrightarrow> lookup h p = Some (ListObj l)"
  by (simp add: loadList_def split: option.splits obj.splits)

lemma loadBuffer_eq:
  "lookup h p = Some (ListObj l) \<Longrightarrow> i < length (mBuffers l) \<Longrightarrow> loadBuffer h p i = Inr (mBuffers l ! i)"
  by (simp add: loadBuffer_def loadSlot_def)

lemma storeBuffer_eq:
  "lookup h p = Some (ListObj l) \<Longrightarrow> i < length (mBuffers l) \<Longrightarrow>
   storeBuffer h p i f = Inr (storeList h p (l\<lparr>mBuffers := (mBuffers l)[i := f (mBuffers l ! i)]\<rparr>))"
  by (simp add: storeBuffer_def storeSlot_def)

lemma storeNumberBuffers_eq:
  "lookup h p = Some (ListObj l) \<Longrightarrow>
   storeNumberBuffers h p v = Inr (storeList h p (l\<lparr>mNumberBuffers := v\<rparr>))"
  by (simp add: storeNumberBuffers_def)

lemma lookup_storeList:
  "p \<noteq> NULL \<Longrightarrow> lookup (storeList h p l) q = (if q = p then Some (ListObj l) else lookup h q)"
  by (simp add: lookup_def storeList_def AList.update_conv')

lemma storeList_storeList [simp]: "storeList (storeList h p l) p l' = storeList h p l'"
  by (simp add: storeList_def)

lemma storeList_fields [simp]:
  "blocks (storeList h p l) = AList.update p (ListObj l) (blocks h)"
  "ncalls (storeList h p l) = ncalls h"
  "fails (storeList h p l) = fails h"
  "junkByte (storeList h p l) = junkByte h"
  by (simp_all add: storeList_def)

lemma lookup_cons:
  "lookup (h\<lparr>blocks := (p, ob) # blocks h\<rparr>) q = (if q = NULL then None else if q = p then Some ob else lookup h q)"
  by (simp add: lookup_def)

lemma lookup_ncalls_update [simp]: "lookup (h\<lparr>ncalls := c\<rparr>) q = lookup h q"
  by (simp add: lookup_def)

subsection \<open>The clean-up loop\<close>

lemma free_live:
  "p \<noteq> NULL \<Longrightarrow> p \<in> fst ` set (blocks h) \<Longrightarrow>
   free h p = Inr (h\<lparr>blocks := AList.restrict (- {p}) (blocks h)\<rparr>)"
  by (simp add: free_def delete_eq_restrict)

lemma lookup_restrict:
  "lookup (h\<lparr>blocks := AList.restrict A (blocks h)\<rparr>) q = (if q \<in> A then lookup h q else None)"
  by (simp add: lookup_def)

lemma freeFirst_spec:
  assumes "lookup h audio = Some (ListObj l)" and "i \<le> length (mBuffers l)" and "j \<le> i"
    and "ownedSlots h audio (drop j (take i (mBuffers l)))"
  shows "freeFirst h audio j i =
           Inr (h\<lparr>blocks := AList.restrict (- mData ` set (drop j (take i (mBuffers l)))) (blocks h)\<rparr>)"
  using assms
proof (induction h audio j i rule: freeFirst.induct)
  case (1 h audio j i)
  show ?case
  proof (cases "j < i")
    case False
    with "1.prems" have "drop j (take i (mBuffers l)) = []" by simp
    with False show ?thesis
      by (simp add: freeFirst.simps [of h audio j i])
  next
    case True
    let ?b = "mBuffers l ! j"
    let ?rest = "drop (Suc j) (take i (mBuffers l))"
    let ?h1 = "h\<lparr>blocks := AList.restrict (- {mData ?b}) (blocks h)\<rparr>"
    from True "1.prems" have split: "drop j (take i (mBuffers l)) = ?b # ?rest"
      by (simp add: Cons_nth_drop_Suc [symmetric])
    with "1.prems" have own: "ownedSlots h audio (?b # ?rest)" by simp
    then have b: "mData ?b \<noteq> NULL" "mData ?b \<noteq> audio" "mData ?b \<in> fst ` set (blocks h)"
      "mData ?b \<notin> mData ` set ?rest"
      by (auto simp add: ownedSlots_def list_all_iff)
    from True "1.prems" have load: "loadBuffer h audio j = Inr ?b"
      by (simp add: loadBuffer_eq)
    have free: "free h (mData ?b) = Inr ?h1"
      using b by (simp add: free_live)
    have "freeFirst ?h1 audio (Suc j) i =
        Inr (?h1\<lparr>blocks := AList.restrict (- mData ` set ?rest) (blocks ?h1)\<rparr>)"
    proof (rule "1.IH" [OF True])
      show "lookup ?h1 audio = Some (ListObj l)"
        using b "1.prems" by (simp add: lookup_restrict)
      show "i \<le> length (mBuffers l)" by fact
      show "Suc j \<le> i" using True by simp
      show "ownedSlots ?h1 audio ?rest"
        using own by (auto simp add: ownedSlots_def list_all_iff image_iff)
    qed
    moreover have "- mData ` set ?rest \<inter> - {mData ?b} = - mData ` set (?b # ?rest)"
      by auto
    ultimately show ?thesis
      using True load free split by (simp add: freeFirst.simps [of h audio j i])
  qed
qed


subsection \<open>One round of the allocation loop\<close>

lemma AudioBuffer_all_fields [simp]:
  "b\<lparr>mData := p, mDataByteSize := s, mNumberChannels := c\<rparr>
     = \<lparr>mNumberChannels = c, mDataByteSize = s, mData = p\<rparr>"
  by (cases b) simp

lemma size_t_of_sint_pos: "0 \<le> sint (b :: cint) \<Longrightarrow> size_t_of_int (sint b) = nat (sint b)"
proof -
  assume "0 \<le> sint b"
  moreover have "sint b < 2 ^ 64"
    using sint_lt [of b] by simp
  ultimately show ?thesis
    by (simp add: size_t_of_int_def)
qed

lemma allocLoop_exit: "\<not> int i < sint n \<Longrightarrow> allocLoop audio n c b i h = Inr (audio, h)"
  by (simp add: allocLoop.simps [of audio n c b i h])

lemma allocLoop_step_null:
  assumes "int i < sint n" and "\<not> 0 < sint b"
    and "lookup h audio = Some (ListObj l)" and "i < length (mBuffers l)"
  shows "allocLoop audio n c b i h =
     allocLoop audio n c b (Suc i)
       (storeList h audio (l\<lparr>mBuffers := (mBuffers l)
          [i := \<lparr>mNumberChannels = c, mDataByteSize = b, mData = NULL\<rparr>]\<rparr>))"
proof -
  from assms(3) have "audio \<noteq> NULL" by (auto dest: lookup_SomeD)
  then show ?thesis
    using assms
    by (simp add: allocLoop.simps [of audio n c b i h] allocData_def storeBuffer_eq lookup_storeList)
qed

lemma allocLoop_step_ok:
  assumes "int i < sint n" and "0 < sint b" and "\<not> fails h (ncalls h)"
    and "lookup h audio = Some (ListObj l)" and "i < length (mBuffers l)"
  shows "allocLoop audio n c b i h =
     allocLoop audio n c b (Suc i)
       (storeList (h\<lparr>blocks := (freshAddr h, DataObj (replicate (nat (sint b)) (junkByte h))) # blocks h,
                     ncalls := Suc (ncalls h)\<rparr>) audio
          (l\<lparr>mBuffers := (mBuffers l)
             [i := \<lparr>mNumberChannels = c, mDataByteSize = b, mData = freshAddr h\<rparr>]\<rparr>))"
proof -
  let ?h1 = "h\<lparr>blocks := (freshAddr h, DataObj (replicate (nat (sint b)) (junkByte h))) # blocks h,
                ncalls := Suc (ncalls h)\<rparr>"
  from assms(4) have audio: "audio \<noteq> NULL" "audio \<noteq> freshAddr h"
    by (auto dest: lookup_SomeD)
  have m: "malloc_bytes h (size_t_of_int (sint b)) = (freshAddr h, ?h1)"
    using assms(2,3) by (simp add: malloc_bytes_ok size_t_of_sint_pos)
  have l1: "lookup ?h1 audio = Some (ListObj l)"
    using audio assms(4) by (simp add: lookup_def)
  show ?thesis
    using assms(1,2,5) audio
    by (simp add: allocLoop.simps [of audio n c b i h] allocData_def m
        storeBuffer_eq [OF l1] storeBuffer_eq lookup_storeList)
qed

lemma allocLoop_step_fail:
  assumes "int i < sint n" and "0 < sint b" and "fails h (ncalls h)"
    and "lookup h audio = Some (ListObj l)" and "i < length (mBuffers l)"
    and "ownedSlots h audio (take i (mBuffers l))"
  shows "allocLoop audio n c b i h =
     Inr (NULL, h\<lparr>blocks := AList.restrict (- insert audio (mData ` set (take i (mBuffers l))))
                               (blocks h),
                   ncalls := Suc (ncalls h)\<rparr>)"
proof -
  let ?S = "mData ` set (take i (mBuffers l))"
  let ?l2 = "l\<lparr>mBuffers := (mBuffers l)[i := (mBuffers l ! i)\<lparr>mData := NULL\<rparr>]\<rparr>"
  let ?h1 = "h\<lparr>ncalls := Suc (ncalls h)\<rparr>"
  let ?h2 = "storeList ?h1 audio ?l2"
  let ?h3 = "?h2\<lparr>blocks := AList.restrict (- ?S) (blocks ?h2)\<rparr>"
  from assms(4) have audio: "audio \<noteq> NULL" "audio \<in> fst ` set (blocks h)"
    by (auto dest: lookup_SomeD)
  from assms(6) have notin: "audio \<notin> ?S"
    by (auto simp add: ownedSlots_def list_all_iff)
  have m: "malloc_bytes h (size_t_of_int (sint b)) = (NULL, ?h1)"
    using assms(3) by (simp add: malloc_bytes_fail)
  have st: "storeBuffer ?h1 audio i (\<lambda>b. b\<lparr>mData := NULL\<rparr>) = Inr ?h2"
    using assms(4,5) by (simp add: storeBuffer_eq)
  have l2: "lookup ?h2 audio = Some (ListObj ?l2)"
    using audio by (simp add: lookup_storeList)
  have "freeFirst ?h2 audio 0 i =
      Inr (?h2\<lparr>blocks := AList.restrict (- mData ` set (drop 0 (take i (mBuffers ?l2)))) (blocks ?h2)\<rparr>)"
  proof (rule freeFirst_spec [OF l2])
    show "i \<le> length (mBuffers ?l2)" using assms(5) by simp
    show "0 \<le> i" by simp
    show "ownedSlots ?h2 audio (drop 0 (take i (mBuffers ?l2)))"
      using assms(6) by (auto simp add: ownedSlots_def list_all_iff AList.dom_update)
  qed
  then have ff: "freeFirst ?h2 audio 0 i = Inr ?h3"
    by simp
  have "audio \<in> fst ` set (blocks ?h3)"
    using notin by (simp add: AList.dom_update)
  then have fr: "free ?h3 audio = Inr (?h3\<lparr>blocks := AList.restrict (- {audio}) (blocks ?h3)\<rparr>)"
    using audio by (simp add: free_live)
  have set_eq: "- {audio} \<inter> - ?S = - insert audio ?S"
    by auto
  have fin: "?h3\<lparr>blocks := AList.restrict (- {audio}) (blocks ?h3)\<rparr>
      = h\<lparr>blocks := AList.restrict (- insert audio ?S) (blocks h), ncalls := Suc (ncalls h)\<rparr>"
    by (simp add: storeList_def set_eq restrict_update_out)
  have "allocData audio b i h =
      bindE (freeFirst ?h2 audio 0 i) (\<lambda>h3. bindE (free h3 audio) (\<lambda>h4. Inr (False, h4)))"
    using assms(2) by (simp add: allocData_def m st)
  also have "\<dots> = bindE (free ?h3 audio) (\<lambda>h4. Inr (False, h4))"
    by (simp only: ff bindE_simps)
  also have "\<dots> = Inr (False, h\<lparr>blocks := AList.restrict (- insert audio ?S) (blocks h),
                                   ncalls := Suc (ncalls h)\<rparr>)"
    by (simp only: fr bindE_simps fin)
  finally show ?thesis
    using assms(1) by (simp add: allocLoop.simps [of audio n c b i h])
qed

lemma sint_nonneg_uint: "0 \<le> sint (w :: cint) \<Longrightarrow> sint w = uint w"
proof -
  assume nn: "0 \<le> sint w"
  have lt: "uint w < 2 ^ 32"
    using uint_bounded [of w] by simp
  then have "take_bit 32 (uint w) = uint w"
    by (simp add: take_bit_int_eq_self)
  then have eq: "sint w = uint w - 2 ^ 32 * of_bool (bit (uint w) 31)"
    by (simp add: sint_uint signed_take_bit_eq_take_bit_minus)
  note lt
  with nn eq have "\<not> bit (uint w) 31"
    by (cases "bit (uint w) 31") simp_all
  with eq show ?thesis by simp
qed

lemma sint_nonneg_unat: "0 \<le> sint (w :: cint) \<Longrightarrow> nat (sint w) = unat w"
  by (simp add: sint_nonneg_uint)

lemma sint_one_cint [simp]: "sint (1 :: cint) = 1"
  by simp

section \<open>The allocation loop\<close>

lemma storeList_same: "lookup h p = Some (ListObj l) \<Longrightarrow> storeList h p l = h"
  by (cases "p = NULL") (simp_all add: lookup_def storeList_def AList.update_triv)

lemma allocLoop_spec:
  assumes "lookup h audio = Some (ListObj l)"
    and "nat (sint n) \<le> length (mBuffers l)"
    and "0 < sint b \<Longrightarrow> ownedSlots h audio (take i (mBuffers l))"
  shows "\<exists>r h'. allocLoop audio n c b i h = Inr (r, h')
      \<and> (r = NULL \<longrightarrow> 0 < sint b
            \<and> (\<exists>k. i \<le> k \<and> int k < sint n \<and> fails h (ncalls h + (k - i)))
            \<and> blocks h' = AList.restrict (- insert audio (mData ` set (take i (mBuffers l)))) (blocks h))
      \<and> (r \<noteq> NULL \<longrightarrow> r = audio
            \<and> (0 < sint b \<longrightarrow> (\<forall>k. i \<le> k \<and> int k < sint n \<longrightarrow> \<not> fails h (ncalls h + (k - i))))
            \<and> (\<exists>l'. lookup h' audio = Some (ListObj l')
                  \<and> (\<not> 0 < sint b \<longrightarrow> h' = storeList h audio l')
                  \<and> mNumberBuffers l' = mNumberBuffers l
                  \<and> length (mBuffers l') = length (mBuffers l)
                  \<and> (\<forall>j<i. mBuffers l' ! j = mBuffers l ! j)
                  \<and> (\<forall>j. i \<le> j \<and> int j < sint n \<longrightarrow>
                        mDataByteSize (mBuffers l' ! j) = b
                        \<and> mNumberChannels (mBuffers l' ! j) = c
                        \<and> (mData (mBuffers l' ! j) = NULL \<longleftrightarrow> \<not> 0 < sint b))))"
  using assms
proof (induction "nat (sint n) - i" arbitrary: i h l)
  case 0
  then have exit: "\<not> int i < sint n" by linarith
  from "0.prems"(1) have "audio \<noteq> NULL" by (auto dest: lookup_SomeD)
  then show ?case
    using exit "0.prems"(1) by (auto simp add: allocLoop_exit storeList_same)
next
  case (Suc m)
  then have lt: "int i < sint n" and m: "m = nat (sint n) - Suc i" by linarith+
  from lt Suc.prems(2) have il: "i < length (mBuffers l)" by linarith
  from Suc.prems(1) have audio: "audio \<noteq> NULL" "audio \<in> fst ` set (blocks h)"
    by (auto dest: lookup_SomeD)
  let ?S = "mData ` set (take i (mBuffers l))"
  show ?case
  proof (cases "0 < sint b")
    case False
    let ?l4 = "l\<lparr>mBuffers := (mBuffers l)[i := \<lparr>mNumberChannels = c, mDataByteSize = b, mData = NULL\<rparr>]\<rparr>"
    let ?h4 = "storeList h audio ?l4"
    have step: "allocLoop audio n c b i h = allocLoop audio n c b (Suc i) ?h4"
      using lt False Suc.prems(1) il by (rule allocLoop_step_null)
    have l4: "lookup ?h4 audio = Some (ListObj ?l4)"
      using audio by (simp add: lookup_storeList)
    from Suc.hyps(1) [OF m l4] Suc.prems(2) False
    obtain r h' l' where res: "allocLoop audio n c b (Suc i) ?h4 = Inr (r, h')"
      and r: "r \<noteq> NULL" "r = audio"
      and l': "lookup h' audio = Some (ListObj l')" "h' = storeList ?h4 audio l'"
        "mNumberBuffers l' = mNumberBuffers ?l4" "length (mBuffers l') = length (mBuffers ?l4)"
        "\<forall>j<Suc i. mBuffers l' ! j = mBuffers ?l4 ! j"
        "\<forall>j. Suc i \<le> j \<and> int j < sint n \<longrightarrow>
            mDataByteSize (mBuffers l' ! j) = b \<and> mNumberChannels (mBuffers l' ! j) = c
            \<and> (mData (mBuffers l' ! j) = NULL \<longleftrightarrow> \<not> 0 < sint b)"
      by (cases "allocLoop audio n c b (Suc i) ?h4") auto
    have old: "\<forall>j<i. mBuffers l' ! j = mBuffers l ! j"
      using l'(5) by simp
    have new: "\<forall>j. i \<le> j \<and> int j < sint n \<longrightarrow>
            mDataByteSize (mBuffers l' ! j) = b \<and> mNumberChannels (mBuffers l' ! j) = c
            \<and> (mData (mBuffers l' ! j) = NULL \<longleftrightarrow> \<not> 0 < sint b)"
    proof (intro allI impI)
      fix j assume j: "i \<le> j \<and> int j < sint n"
      show "mDataByteSize (mBuffers l' ! j) = b \<and> mNumberChannels (mBuffers l' ! j) = c
            \<and> (mData (mBuffers l' ! j) = NULL \<longleftrightarrow> \<not> 0 < sint b)"
      proof (cases "j = i")
        case True
        then show ?thesis using l'(5) il False by simp
      next
        case False
        with j l'(6) show ?thesis by simp
      qed
    qed
    show ?thesis
      using step res r l'(1,2,3,4) old new False by simp
  next
    case True
    with Suc.prems(3) have own: "ownedSlots h audio (take i (mBuffers l))" by simp
    show ?thesis
    proof (cases "fails h (ncalls h)")
      case fl: True
      have "allocLoop audio n c b i h =
          Inr (NULL, h\<lparr>blocks := AList.restrict (- insert audio ?S) (blocks h),
                        ncalls := Suc (ncalls h)\<rparr>)"
        using lt True fl Suc.prems(1) il own by (rule allocLoop_step_fail)
      moreover have "\<exists>k. i \<le> k \<and> int k < sint n \<and> fails h (ncalls h + (k - i))"
        using lt fl by (intro exI [of _ i]) simp
      ultimately show ?thesis
        using True by simp
    next
      case ok: False
      let ?p = "freshAddr h"
      let ?h1 = "h\<lparr>blocks := (?p, DataObj (replicate (nat (sint b)) (junkByte h))) # blocks h,
                    ncalls := Suc (ncalls h)\<rparr>"
      let ?l4 = "l\<lparr>mBuffers := (mBuffers l)[i := \<lparr>mNumberChannels = c, mDataByteSize = b, mData = ?p\<rparr>]\<rparr>"
      let ?h4 = "storeList ?h1 audio ?l4"
      have step: "allocLoop audio n c b i h = allocLoop audio n c b (Suc i) ?h4"
        using lt True ok Suc.prems(1) il by (rule allocLoop_step_ok)
      have l4: "lookup ?h4 audio = Some (ListObj ?l4)"
        using audio by (simp add: lookup_storeList)
      have p: "?p \<notin> fst ` set (blocks h)" "?p \<noteq> audio"
        using freshAddr_notin [of h] audio by auto
      have tk: "take (Suc i) (mBuffers ?l4)
          = take i (mBuffers l) @ [\<lparr>mNumberChannels = c, mDataByteSize = b, mData = ?p\<rparr>]"
        using il by (simp add: take_Suc_conv_app_nth)
      have own4: "ownedSlots ?h4 audio (take (Suc i) (mBuffers ?l4))"
        using own p unfolding tk
        by (auto simp add: ownedSlots_def list_all_iff AList.dom_update)
      have img: "mData ` set (take (Suc i) (mBuffers ?l4)) = insert ?p ?S"
        unfolding tk by simp
      have blk: "AList.restrict (- insert audio (insert ?p ?S)) (blocks ?h4)
          = AList.restrict (- insert audio ?S) (blocks h)"
      proof -
        have "AList.restrict (- insert audio (insert ?p ?S)) (blocks ?h4)
            = AList.restrict (- insert audio (insert ?p ?S)) (blocks h)"
          by (simp add: restrict_update_out)
        also have "\<dots> = AList.restrict (- insert audio ?S) (blocks h)"
          using p(1) by (intro restrict_cong_set) (auto simp add: image_iff)
        finally show ?thesis .
      qed
      have fl4: "fails ?h4 = fails h" "ncalls ?h4 = Suc (ncalls h)"
        by simp_all
      from Suc.hyps(1) [OF m l4] Suc.prems(2) own4
      obtain r h' where res: "allocLoop audio n c b (Suc i) ?h4 = Inr (r, h')"
        and rnull: "r = NULL \<longrightarrow>
            (\<exists>k. Suc i \<le> k \<and> int k < sint n \<and> fails ?h4 (ncalls ?h4 + (k - Suc i)))
            \<and> blocks h' = AList.restrict (- insert audio (mData ` set (take (Suc i) (mBuffers ?l4)))) (blocks ?h4)"
        and rok: "r \<noteq> NULL \<longrightarrow> r = audio
            \<and> (\<forall>k. Suc i \<le> k \<and> int k < sint n \<longrightarrow> \<not> fails ?h4 (ncalls ?h4 + (k - Suc i)))
            \<and> (\<exists>l'. lookup h' audio = Some (ListObj l')
                  \<and> mNumberBuffers l' = mNumberBuffers ?l4
                  \<and> length (mBuffers l') = length (mBuffers ?l4)
                  \<and> (\<forall>j<Suc i. mBuffers l' ! j = mBuffers ?l4 ! j)
                  \<and> (\<forall>j. Suc i \<le> j \<and> int j < sint n \<longrightarrow>
                        mDataByteSize (mBuffers l' ! j) = b
                        \<and> mNumberChannels (mBuffers l' ! j) = c
                        \<and> (mData (mBuffers l' ! j) = NULL \<longleftrightarrow> \<not> 0 < sint b)))"
        using True by (cases "allocLoop audio n c b (Suc i) ?h4") auto
      have shift: "Suc (ncalls h) + (k - Suc i) = ncalls h + (k - i)" if "Suc i \<le> k" for k
        using that by simp
      have A: "r = NULL \<longrightarrow> (\<exists>k. i \<le> k \<and> int k < sint n \<and> fails h (ncalls h + (k - i)))
            \<and> blocks h' = AList.restrict (- insert audio ?S) (blocks h)"
      proof
        assume "r = NULL"
        with rnull obtain k where k: "Suc i \<le> k" "int k < sint n"
            "fails ?h4 (ncalls ?h4 + (k - Suc i))"
          and b': "blocks h' = AList.restrict (- insert audio (mData ` set (take (Suc i) (mBuffers ?l4)))) (blocks ?h4)"
          by blast
        from k(3) have "fails h (Suc (ncalls h) + (k - Suc i))"
          unfolding fl4 .
        then have "fails h (ncalls h + (k - i))"
          unfolding shift [OF k(1)] .
        with k have "i \<le> k \<and> int k < sint n \<and> fails h (ncalls h + (k - i))"
          by simp
        moreover from b' have "blocks h' = AList.restrict (- insert audio ?S) (blocks h)"
          unfolding img blk .
        ultimately show "(\<exists>k. i \<le> k \<and> int k < sint n \<and> fails h (ncalls h + (k - i)))
            \<and> blocks h' = AList.restrict (- insert audio ?S) (blocks h)"
          by blast
      qed
      have B: "r \<noteq> NULL \<longrightarrow> r = audio
            \<and> (\<forall>k. i \<le> k \<and> int k < sint n \<longrightarrow> \<not> fails h (ncalls h + (k - i)))
            \<and> (\<exists>l'. lookup h' audio = Some (ListObj l')
                  \<and> mNumberBuffers l' = mNumberBuffers l
                  \<and> length (mBuffers l') = length (mBuffers l)
                  \<and> (\<forall>j<i. mBuffers l' ! j = mBuffers l ! j)
                  \<and> (\<forall>j. i \<le> j \<and> int j < sint n \<longrightarrow>
                        mDataByteSize (mBuffers l' ! j) = b
                        \<and> mNumberChannels (mBuffers l' ! j) = c
                        \<and> (mData (mBuffers l' ! j) = NULL \<longleftrightarrow> \<not> 0 < sint b)))"
      proof
        assume "r \<noteq> NULL"
        with rok obtain l' where ra: "r = audio"
          and nf: "\<forall>k. Suc i \<le> k \<and> int k < sint n \<longrightarrow> \<not> fails ?h4 (ncalls ?h4 + (k - Suc i))"
          and l': "lookup h' audio = Some (ListObj l')"
            "mNumberBuffers l' = mNumberBuffers ?l4" "length (mBuffers l') = length (mBuffers ?l4)"
            "\<forall>j<Suc i. mBuffers l' ! j = mBuffers ?l4 ! j"
            "\<forall>j. Suc i \<le> j \<and> int j < sint n \<longrightarrow>
                mDataByteSize (mBuffers l' ! j) = b \<and> mNumberChannels (mBuffers l' ! j) = c
                \<and> (mData (mBuffers l' ! j) = NULL \<longleftrightarrow> \<not> 0 < sint b)"
          by blast
        have nf': "\<forall>k. i \<le> k \<and> int k < sint n \<longrightarrow> \<not> fails h (ncalls h + (k - i))"
        proof (intro allI impI)
          fix k assume k: "i \<le> k \<and> int k < sint n"
          show "\<not> fails h (ncalls h + (k - i))"
          proof (cases "k = i")
            case True
            with ok show ?thesis by simp
          next
            case False
            with k have k': "Suc i \<le> k" by simp
            with nf k have "\<not> fails ?h4 (ncalls ?h4 + (k - Suc i))" by blast
            then have "\<not> fails h (Suc (ncalls h) + (k - Suc i))"
              unfolding fl4 .
            then show ?thesis
              unfolding shift [OF k'] .
          qed
        qed
        have old: "\<forall>j<i. mBuffers l' ! j = mBuffers l ! j"
          using l'(4) by simp
        have new: "\<forall>j. i \<le> j \<and> int j < sint n \<longrightarrow>
            mDataByteSize (mBuffers l' ! j) = b \<and> mNumberChannels (mBuffers l' ! j) = c
            \<and> (mData (mBuffers l' ! j) = NULL \<longleftrightarrow> \<not> 0 < sint b)"
        proof (intro allI impI)
          fix j assume j: "i \<le> j \<and> int j < sint n"
          show "mDataByteSize (mBuffers l' ! j) = b \<and> mNumberChannels (mBuffers l' ! j) = c
            \<and> (mData (mBuffers l' ! j) = NULL \<longleftrightarrow> \<not> 0 < sint b)"
          proof (cases "j = i")
            case True
            then show ?thesis using l'(4) il \<open>0 < sint b\<close> by simp
          next
            case False
            with j l'(5) show ?thesis by simp
          qed
        qed
        show "r = audio
            \<and> (\<forall>k. i \<le> k \<and> int k < sint n \<longrightarrow> \<not> fails h (ncalls h + (k - i)))
            \<and> (\<exists>l'. lookup h' audio = Some (ListObj l')
                  \<and> mNumberBuffers l' = mNumberBuffers l
                  \<and> length (mBuffers l') = length (mBuffers l)
                  \<and> (\<forall>j<i. mBuffers l' ! j = mBuffers l ! j)
                  \<and> (\<forall>j. i \<le> j \<and> int j < sint n \<longrightarrow>
                        mDataByteSize (mBuffers l' ! j) = b
                        \<and> mNumberChannels (mBuffers l' ! j) = c
                        \<and> (mData (mBuffers l' ! j) = NULL \<longleftrightarrow> \<not> 0 < sint b)))"
          using ra nf' l'(1,2,3) old new by auto
      qed
      show ?thesis
      proof (cases "r = NULL")
        case True
        with A \<open>0 < sint b\<close> show ?thesis
          unfolding step res by simp
      next
        case False
        with B \<open>0 < sint b\<close> show ?thesis
          unfolding step res by simp
      qed
    qed
  qed
qed

lemma slotsIn_listBytes: "0 \<le> sint (n :: cint) \<Longrightarrow> slotsIn (listBytes n) = nat (sint n)"
proof -
  assume n: "0 \<le> sint n"
  show ?thesis
  proof (cases "sint n = 0")
    case True
    then show ?thesis
      by (simp add: slotsIn_def listBytes_def size_t_of_int_def sizes)
  next
    case False
    with n have pos: "0 \<le> sint n - 1" by simp
    have "sint n - 1 < 2 ^ 31"
      using sint_lt [of n] by simp
    then have lt: "sint n - 1 < 2 ^ 64" by simp
    have s: "size_t_of_int (sint n - 1) = nat (sint n - 1)"
      using pos lt by (simp add: size_t_of_int_def)
    have "nat (sint n - 1) < 2 ^ 31"
      using \<open>sint n - 1 < 2 ^ 31\<close> pos by simp
    then have "24 + nat (sint n - 1) * 16 < (2 :: nat) ^ 64" by simp
    then have "listBytes n = 24 + nat (sint n - 1) * 16"
      by (simp add: listBytes_def s sizes)
    then show ?thesis
      using pos False by (simp add: slotsIn_def sizes nat_diff_distrib)
  qed
qed

lemma slots_enough: "nat (sint (n :: cint)) \<le> slotsIn (listBytes n)"
  by (cases "0 \<le> sint n") (simp_all add: slotsIn_listBytes)

lemma malloc_list_fail:
  "fails h (ncalls h) \<Longrightarrow> malloc_AudioBufferList h n = (NULL, h\<lparr>ncalls := Suc (ncalls h)\<rparr>)"
  by (simp add: malloc_AudioBufferList_def alloc_def)

lemma malloc_list_ok:
  "\<not> fails h (ncalls h) \<Longrightarrow> malloc_AudioBufferList h n =
     (freshAddr h,
      h\<lparr>blocks := (freshAddr h, ListObj \<lparr>mNumberBuffers = junkWord h,
                       mBuffers = replicate (slotsIn n) (junkBuffer h)\<rparr>) # blocks h,
        ncalls := Suc (ncalls h)\<rparr>)"
  by (simp add: malloc_AudioBufferList_def alloc_def)

lemma restrict_fresh_cons:
  "p \<notin> fst ` set al \<Longrightarrow> AList.restrict (- {p}) ((p, v) # al) = al"
  using restrict_all [of al "- {p}"] by (auto simp add: AList.restrict_eq)

lemma allocate_spec:
  fixes audioFormat frameCount h
  defines "n \<equiv> numberOfBuffers audioFormat"
    and "c \<equiv> channelsPerBuffer audioFormat"
    and "b \<equiv> bytesPerBuffer audioFormat frameCount"
  shows "\<exists>r h'. AEAllocateAndInitAudioBufferList audioFormat frameCount h = Inr (r, h')
      \<and> (r = NULL \<longrightarrow> blocks h' = blocks h
            \<and> (fails h (ncalls h)
                \<or> 0 < sint b \<and> (\<exists>k. int k < sint n \<and> fails h (Suc (ncalls h) + k))))
      \<and> (r \<noteq> NULL \<longrightarrow> r = freshAddr h \<and> \<not> fails h (ncalls h)
            \<and> (0 < sint b \<longrightarrow> (\<forall>k. int k < sint n \<longrightarrow> \<not> fails h (Suc (ncalls h) + k)))
            \<and> (\<exists>l'. lookup h' r = Some (ListObj l')
                  \<and> (\<not> 0 < sint b \<longrightarrow>
                        h' = h\<lparr>blocks := (r, ListObj l') # blocks h, ncalls := Suc (ncalls h)\<rparr>)
                  \<and> mNumberBuffers l' = n
                  \<and> length (mBuffers l') = slotsIn (listBytes n)
                  \<and> (\<forall>j. int j < sint n \<longrightarrow>
                        mDataByteSize (mBuffers l' ! j) = b
                        \<and> mNumberChannels (mBuffers l' ! j) = c
                        \<and> (mData (mBuffers l' ! j) = NULL \<longleftrightarrow> \<not> 0 < sint b))))"
proof (cases "fails h (ncalls h)")
  case True
  then show ?thesis
    by (simp add: AEAllocateAndInitAudioBufferList_def malloc_list_fail)
next
  case False
  note ok = False
  define p where "p = freshAddr h"
  define l0 where "l0 = \<lparr>mNumberBuffers = junkWord h,
       mBuffers = replicate (slotsIn (listBytes n)) (junkBuffer h)\<rparr>"
  define l1 where "l1 = l0\<lparr>mNumberBuffers := n\<rparr>"
  define h1 where "h1 = h\<lparr>blocks := (p, ListObj l0) # blocks h, ncalls := Suc (ncalls h)\<rparr>"
  define h2 where "h2 = storeList h1 p l1"
  have p: "p \<noteq> NULL" "p \<notin> fst ` set (blocks h)"
    using freshAddr_notin [of h] by (simp_all add: p_def)
  have l1': "lookup h1 p = Some (ListObj l0)"
    using p by (simp add: lookup_def h1_def)
  have l2: "lookup h2 p = Some (ListObj l1)"
    using p by (simp add: lookup_storeList h2_def)
  have m: "malloc_AudioBufferList h (listBytes n) = (p, h1)"
    using False by (simp add: malloc_list_ok p_def h1_def l0_def)
  have st: "storeNumberBuffers h1 p n = Inr h2"
    by (simp add: storeNumberBuffers_eq [OF l1'] h2_def l1_def)
  have run: "AEAllocateAndInitAudioBufferList audioFormat frameCount h = allocLoop p n c b 0 h2"
    unfolding AEAllocateAndInitAudioBufferList_def n_def [symmetric] c_def [symmetric]
      b_def [symmetric] m
    using p(1) by (simp add: st)
  have blk2: "blocks h2 = (p, ListObj l1) # blocks h"
    by (simp add: h2_def h1_def)
  have cap: "nat (sint n) \<le> length (mBuffers l1)"
    by (simp add: slots_enough l1_def l0_def)
  have own: "ownedSlots h2 p (take 0 (mBuffers l1))"
    by (simp add: ownedSlots_def)
  have fl: "fails h2 = fails h" "ncalls h2 = Suc (ncalls h)"
    by (simp_all add: h2_def h1_def)
  have l1f: "mNumberBuffers l1 = n" "length (mBuffers l1) = slotsIn (listBytes n)"
    by (simp_all add: l1_def l0_def)
  from allocLoop_spec [OF l2 cap own, where c = c and b = b]
  obtain r h' where res: "allocLoop p n c b 0 h2 = Inr (r, h')"
    and rnull: "r = NULL \<longrightarrow> 0 < sint b
            \<and> (\<exists>k. int k < sint n \<and> fails h2 (ncalls h2 + k))
            \<and> blocks h' = AList.restrict (- {p}) (blocks h2)"
    and rok: "r \<noteq> NULL \<longrightarrow> r = p
            \<and> (0 < sint b \<longrightarrow> (\<forall>k. int k < sint n \<longrightarrow> \<not> fails h2 (ncalls h2 + k)))
            \<and> (\<exists>l'. lookup h' p = Some (ListObj l')
                  \<and> (\<not> 0 < sint b \<longrightarrow> h' = storeList h2 p l')
                  \<and> mNumberBuffers l' = mNumberBuffers l1
                  \<and> length (mBuffers l') = length (mBuffers l1)
                  \<and> (\<forall>j. int j < sint n \<longrightarrow>
                        mDataByteSize (mBuffers l' ! j) = b
                        \<and> mNumberChannels (mBuffers l' ! j) = c
                        \<and> (mData (mBuffers l' ! j) = NULL \<longleftrightarrow> \<not> 0 < sint b)))"
    by auto
  show ?thesis
  proof (cases "r = NULL")
    case True
    with rnull have b: "0 < sint b"
      and k: "\<exists>k. int k < sint n \<and> fails h (Suc (ncalls h) + k)"
      and bl: "blocks h' = AList.restrict (- {p}) (blocks h2)"
      unfolding fl by auto
    from bl have "blocks h' = blocks h"
      unfolding blk2 restrict_fresh_cons [OF p(2)] .
    with True b k show ?thesis
      unfolding run res by simp
  next
    case nn: False
    with rok obtain l' where ra: "r = p"
      and nf: "0 < sint b \<longrightarrow> (\<forall>k. int k < sint n \<longrightarrow> \<not> fails h (Suc (ncalls h) + k))"
      and l': "lookup h' p = Some (ListObj l')"
        "\<not> 0 < sint b \<longrightarrow> h' = storeList h2 p l'"
        "mNumberBuffers l' = n" "length (mBuffers l') = slotsIn (listBytes n)"
        "\<forall>j. int j < sint n \<longrightarrow>
            mDataByteSize (mBuffers l' ! j) = b \<and> mNumberChannels (mBuffers l' ! j) = c
            \<and> (mData (mBuffers l' ! j) = NULL \<longleftrightarrow> \<not> 0 < sint b)"
      unfolding fl l1f by auto
    have "storeList h2 p l' = h\<lparr>blocks := (p, ListObj l') # blocks h, ncalls := Suc (ncalls h)\<rparr>"
      by (simp add: storeList_def h2_def h1_def)
    with l'(2) have h': "\<not> 0 < sint b \<longrightarrow>
        h' = h\<lparr>blocks := (p, ListObj l') # blocks h, ncalls := Suc (ncalls h)\<rparr>"
      by simp
    show ?thesis
      unfolding run res using ra nn ok nf l'(1,3,4,5) h' by (auto simp add: p_def)
  qed
qed

lemma nth_all: "(\<forall>j<length xs. P (xs ! j)) \<Longrightarrow> list_all P xs"
  by (simp add: list_all_length)

lemma allocate_valid:
  assumes "0 \<le> sint (mChannelsPerFrame audioFormat)"
  shows "0 \<le> sint (numberOfBuffers audioFormat)"
    and "nat (sint (numberOfBuffers audioFormat)) = unat (numberOfBuffers audioFormat)"
    and "slotsIn (listBytes (numberOfBuffers audioFormat)) = unat (numberOfBuffers audioFormat)"
proof -
  show nn: "0 \<le> sint (numberOfBuffers audioFormat)"
    using assms by (simp add: numberOfBuffers_def)
  then show eq: "nat (sint (numberOfBuffers audioFormat)) = unat (numberOfBuffers audioFormat)"
    by (rule sint_nonneg_unat)
  from nn eq show "slotsIn (listBytes (numberOfBuffers audioFormat)) = unat (numberOfBuffers audioFormat)"
    by (simp add: slotsIn_listBytes)
qed


lemma frames_eq:
  assumes "mBuffers list \<noteq> []"
    and "channelCount = (if isNonInterleaved audioFormat then mNumberBuffers list
                         else mNumberChannels (mBuffers list ! 0))"
    and "(mBitsPerChannel audioFormat div 8) * channelCount \<noteq> 0"
  shows "AEGetNumberOfFramesInAudioBufferList list audioFormat oNumberOfChannels =
           Inr (mDataByteSize (mBuffers list ! 0)
                  div ((mBitsPerChannel audioFormat div 8) * channelCount),
                (case oNumberOfChannels of None \<Rightarrow> None | Some v \<Rightarrow> Some channelCount))"
  using assms by (cases "isNonInterleaved audioFormat")
    (simp_all add: AEGetNumberOfFramesInAudioBufferList_def loadSlot_def split: option.splits)



section \<open>The storage of the allocated buffers\<close>

lemma sint_small_unat:
  assumes "unat (w :: cint) < 2 ^ 31"
  shows "sint w = int (unat w)"
proof -
  from assms have "int (unat w) < int (2 ^ 31)"
    by (simp only: of_nat_less_iff)
  then have "uint w < 2 ^ 31"
    by simp
  moreover have "- (2 ^ 31) \<le> uint w"
  proof -
    have "- (2 ^ 31) \<le> (0 :: int)" by simp
    also have "0 \<le> uint w" by simp
    finally show ?thesis .
  qed
  ultimately have "signed_take_bit 31 (uint w) = uint w"
    by (intro signed_take_bit_int_eq_self) simp_all
  then show ?thesis
    by (simp add: sint_uint)
qed

lemma lookup_store_cons:
  assumes "audio \<noteq> NULL" and "p \<noteq> NULL"
  shows "lookup (storeList (h\<lparr>blocks := (p, ob) # blocks h, ncalls := k\<rparr>) audio l4) q
     = (if q = audio then Some (ListObj l4) else if q = p then Some ob else lookup h q)"
  using assms by (simp add: lookup_storeList) (simp add: lookup_def)

lemma allocLoop_storage:
  assumes "lookup h audio = Some (ListObj l)"
    and "nat (sint n) \<le> length (mBuffers l)"
    and "0 < sint b"
    and "allocLoop audio n c b i h = Inr (r, h')" and "r \<noteq> NULL"
    and "i \<le> nat (sint n)"
    and "ownedSlots h audio (take i (mBuffers l))"
    and "\<forall>j<i. lookup h0 (mData (mBuffers l ! j)) = None
           \<and> lookup h (mData (mBuffers l ! j)) = Some (DataObj (replicate (nat (sint b)) (junkByte h)))"
    and "\<forall>q. lookup h0 q \<noteq> None \<longrightarrow> lookup h q = lookup h0 q"
    and "lookup h0 audio = None"
  shows "\<exists>l'. lookup h' audio = Some (ListObj l')
      \<and> ownedSlots h' audio (take (nat (sint n)) (mBuffers l'))
      \<and> (\<forall>j<nat (sint n). lookup h0 (mData (mBuffers l' ! j)) = None
            \<and> lookup h' (mData (mBuffers l' ! j))
                = Some (DataObj (replicate (nat (sint b)) (junkByte h))))
      \<and> (\<forall>q. lookup h0 q \<noteq> None \<longrightarrow> lookup h' q = lookup h0 q)"
  using assms
proof (induction "nat (sint n) - i" arbitrary: i h l)
  case 0
  then have exit: "\<not> int i < sint n" and i: "i = nat (sint n)" by linarith+
  from "0.prems"(4) exit have "h' = h"
    by (simp add: allocLoop_exit)
  with "0.prems" i show ?case
    by (intro exI [of _ l]) simp
next
  case (Suc m)
  then have lt: "int i < sint n" and m: "m = nat (sint n) - Suc i" by linarith+
  from lt Suc.prems(2) have il: "i < length (mBuffers l)" by linarith
  from Suc.prems(1) have audio: "audio \<noteq> NULL" "audio \<in> fst ` set (blocks h)"
    by (auto dest: lookup_SomeD)
  note own = Suc.prems(7)
  have ok: "\<not> fails h (ncalls h)"
  proof
    assume "fails h (ncalls h)"
    with lt Suc.prems(3) have "allocLoop audio n c b i h =
          Inr (NULL, h\<lparr>blocks := AList.restrict (- insert audio (mData ` set (take i (mBuffers l))))
                               (blocks h),
                   ncalls := Suc (ncalls h)\<rparr>)"
      using Suc.prems(1) il own by (intro allocLoop_step_fail)
    with Suc.prems(4,5) show False by simp
  qed
  let ?p = "freshAddr h"
  let ?d = "DataObj (replicate (nat (sint b)) (junkByte h))"
  let ?h1 = "h\<lparr>blocks := (?p, ?d) # blocks h, ncalls := Suc (ncalls h)\<rparr>"
  let ?l4 = "l\<lparr>mBuffers := (mBuffers l)[i := \<lparr>mNumberChannels = c, mDataByteSize = b, mData = ?p\<rparr>]\<rparr>"
  let ?h4 = "storeList ?h1 audio ?l4"
  have step: "allocLoop audio n c b i h = allocLoop audio n c b (Suc i) ?h4"
    using lt Suc.prems(3) ok Suc.prems(1) il by (rule allocLoop_step_ok)
  have look: "lookup ?h4 q = (if q = audio then Some (ListObj ?l4) else if q = ?p then Some ?d else lookup h q)" for q
    using audio(1) by (intro lookup_store_cons) simp_all
  have p: "?p \<notin> fst ` set (blocks h)" "?p \<noteq> audio"
    using freshAddr_notin [of h] audio by auto
  have p0: "lookup h0 ?p = None"
  proof (rule ccontr)
    assume "lookup h0 ?p \<noteq> None"
    with Suc.prems(9) [rule_format, of ?p] have "lookup h ?p \<noteq> None" by metis
    then show False by simp
  qed
  have tk: "take (Suc i) (mBuffers ?l4)
      = take i (mBuffers l) @ [\<lparr>mNumberChannels = c, mDataByteSize = b, mData = ?p\<rparr>]"
    using il by (simp add: take_Suc_conv_app_nth)
  have own4: "ownedSlots ?h4 audio (take (Suc i) (mBuffers ?l4))"
    using own p unfolding tk
    by (auto simp add: ownedSlots_def list_all_iff AList.dom_update)
  have old: "lookup h0 (mData (mBuffers ?l4 ! j)) = None
           \<and> lookup ?h4 (mData (mBuffers ?l4 ! j)) = Some (DataObj (replicate (nat (sint b)) (junkByte ?h4)))"
    if j: "j < Suc i" for j
  proof (cases "j = i")
    case True
    then show ?thesis
      using il p p0 by (simp add: look)
  next
    case False
    with j have ji: "j < i" by simp
    let ?q = "mData (mBuffers l ! j)"
    from ji il have "mBuffers l ! j \<in> set (take i (mBuffers l))"
      by (auto simp add: in_set_conv_nth intro!: exI [of _ j])
    with own have q: "?q \<noteq> audio" "?q \<in> fst ` set (blocks h)"
      by (auto simp add: ownedSlots_def list_all_iff)
    with p have "?q \<noteq> ?p" by metis
    with q Suc.prems(8) ji False show ?thesis
      by (simp add: look)
  qed
  have frame4: "\<forall>q. lookup h0 q \<noteq> None \<longrightarrow> lookup ?h4 q = lookup h0 q"
  proof (intro allI impI)
    fix q assume q: "lookup h0 q \<noteq> None"
    with Suc.prems(10) p0 have "q \<noteq> audio" "q \<noteq> ?p" by auto
    with q Suc.prems(9) show "lookup ?h4 q = lookup h0 q"
      by (simp add: look)
  qed
  have l4: "lookup ?h4 audio = Some (ListObj ?l4)"
    by (simp add: look)
  have "\<exists>l'. lookup h' audio = Some (ListObj l')
      \<and> ownedSlots h' audio (take (nat (sint n)) (mBuffers l'))
      \<and> (\<forall>j<nat (sint n). lookup h0 (mData (mBuffers l' ! j)) = None
            \<and> lookup h' (mData (mBuffers l' ! j))
                = Some (DataObj (replicate (nat (sint b)) (junkByte ?h4))))
      \<and> (\<forall>q. lookup h0 q \<noteq> None \<longrightarrow> lookup h' q = lookup h0 q)"
  proof (rule Suc.hyps(1) [OF m l4])
    show "nat (sint n) \<le> length (mBuffers ?l4)" using Suc.prems(2) by simp
    show "0 < sint b" by fact
    show "allocLoop audio n c b (Suc i) ?h4 = Inr (r, h')"
      using Suc.prems(4) unfolding step .
    show "r \<noteq> NULL" by fact
    show "Suc i \<le> nat (sint n)" using lt by linarith
    show "ownedSlots ?h4 audio (take (Suc i) (mBuffers ?l4))" by (rule own4)
    show "\<forall>j<Suc i. lookup h0 (mData (mBuffers ?l4 ! j)) = None
           \<and> lookup ?h4 (mData (mBuffers ?l4 ! j)) = Some (DataObj (replicate (nat (sint b)) (junkByte ?h4)))"
      using old by blast
    show "\<forall>q. lookup h0 q \<noteq> None \<longrightarrow> lookup ?h4 q = lookup h0 q" by (rule frame4)
    show "lookup h0 audio = None" by fact
  qed
  then show ?case by simp
qed

lemma allocate_storage:
  assumes run: "AEAllocateAndInitAudioBufferList audioFormat frameCount h = Inr (r, h')"
    and r: "r \<noteq> NULL"
    and b: "0 < sint (bytesPerBuffer audioFormat frameCount)"
  shows "\<exists>l. lookup h' r = Some (ListObj l) \<and> lookup h r = None
      \<and> ownedSlots h' r (take (nat (sint (numberOfBuffers audioFormat))) (mBuffers l))
      \<and> (\<forall>j<nat (sint (numberOfBuffers audioFormat)). lookup h (mData (mBuffers l ! j)) = None
            \<and> lookup h' (mData (mBuffers l ! j))
                = Some (DataObj (replicate (nat (sint (bytesPerBuffer audioFormat frameCount)))
                                   (junkByte h))))
      \<and> (\<forall>q. lookup h q \<noteq> None \<longrightarrow> lookup h' q = lookup h q)"
proof -
  let ?n = "numberOfBuffers audioFormat"
  let ?c = "channelsPerBuffer audioFormat"
  let ?b = "bytesPerBuffer audioFormat frameCount"
  define p where "p = freshAddr h"
  define l0 where "l0 = \<lparr>mNumberBuffers = junkWord h,
       mBuffers = replicate (slotsIn (listBytes ?n)) (junkBuffer h)\<rparr>"
  define l1 where "l1 = l0\<lparr>mNumberBuffers := ?n\<rparr>"
  define h1 where "h1 = h\<lparr>blocks := (p, ListObj l0) # blocks h, ncalls := Suc (ncalls h)\<rparr>"
  define h2 where "h2 = storeList h1 p l1"
  have ok: "\<not> fails h (ncalls h)"
  proof
    assume "fails h (ncalls h)"
    then have "AEAllocateAndInitAudioBufferList audioFormat frameCount h
        = Inr (NULL, h\<lparr>ncalls := Suc (ncalls h)\<rparr>)"
      by (simp add: AEAllocateAndInitAudioBufferList_def malloc_list_fail)
    with run r show False by simp
  qed
  have p: "p \<noteq> NULL" "p \<notin> fst ` set (blocks h)" "lookup h p = None"
    using freshAddr_notin [of h] by (simp_all add: p_def)
  have l1': "lookup h1 p = Some (ListObj l0)"
    using p by (simp add: lookup_def h1_def)
  have look2: "lookup h2 q = (if q = p then Some (ListObj l1) else lookup h q)" for q
    using p(1) unfolding h2_def h1_def by (simp add: lookup_store_cons)
  have m: "malloc_AudioBufferList h (listBytes ?n) = (p, h1)"
    using ok by (simp add: malloc_list_ok p_def h1_def l0_def)
  have st: "storeNumberBuffers h1 p ?n = Inr h2"
    using l1' by (simp add: storeNumberBuffers_eq h2_def l1_def)
  have loop: "allocLoop p ?n ?c ?b 0 h2 = Inr (r, h')"
    using run p(1) by (simp add: AEAllocateAndInitAudioBufferList_def m st)
  have jb: "junkByte h2 = junkByte h"
    by (simp add: h2_def h1_def)
  have "\<exists>l'. lookup h' p = Some (ListObj l')
      \<and> ownedSlots h' p (take (nat (sint ?n)) (mBuffers l'))
      \<and> (\<forall>j<nat (sint ?n). lookup h (mData (mBuffers l' ! j)) = None
            \<and> lookup h' (mData (mBuffers l' ! j))
                = Some (DataObj (replicate (nat (sint ?b)) (junkByte h2))))
      \<and> (\<forall>q. lookup h q \<noteq> None \<longrightarrow> lookup h' q = lookup h q)"
  proof (rule allocLoop_storage [where l = l1 and i = 0])
    show "lookup h2 p = Some (ListObj l1)" by (simp add: look2)
    show "nat (sint ?n) \<le> length (mBuffers l1)"
      by (simp add: l1_def l0_def slots_enough)
    show "0 < sint ?b" by fact
    show "allocLoop p ?n ?c ?b 0 h2 = Inr (r, h')" by (rule loop)
    show "r \<noteq> NULL" by fact
    show "0 \<le> nat (sint ?n)" by simp
    show "ownedSlots h2 p (take 0 (mBuffers l1))" by (simp add: ownedSlots_def)
    show "\<forall>j<0. lookup h (mData (mBuffers l1 ! j)) = None
           \<and> lookup h2 (mData (mBuffers l1 ! j)) = Some (DataObj (replicate (nat (sint ?b)) (junkByte h2)))"
      by simp
    show "\<forall>q. lookup h q \<noteq> None \<longrightarrow> lookup h2 q = lookup h q"
      using p(3) by (auto simp add: look2)
    show "lookup h p = None" by fact
  qed
  moreover have "r = p"
    using allocate_spec [of audioFormat frameCount h] r unfolding run p_def by auto
  ultimately show ?thesis
    using p(3) by (simp add: jb)
qed

section \<open>What the allocator keeps\<close>

lemma bindE_InrE:
  assumes "bindE m f = Inr y"
  obtains x where "m = Inr x" and "f x = Inr y"
  using assms by (cases m) simp_all

lemma sameAllocator_refl [simp]: "sameAllocator h h"
  by (simp add: sameAllocator_def)

lemma sameAllocator_trans: "sameAllocator h h1 \<Longrightarrow> sameAllocator h1 h2 \<Longrightarrow> sameAllocator h h2"
  by (simp add: sameAllocator_def)

lemma same_alloc: "alloc h ob = (p, h') \<Longrightarrow> sameAllocator h h'"
  by (auto simp add: alloc_def sameAllocator_def split: if_splits)

lemma same_malloc_bytes: "malloc_bytes h n = (p, h') \<Longrightarrow> sameAllocator h h'"
  unfolding malloc_bytes_def by (rule same_alloc)

lemma same_malloc_list: "malloc_AudioBufferList h n = (p, h') \<Longrightarrow> sameAllocator h h'"
  unfolding malloc_AudioBufferList_def by (rule same_alloc)

lemma same_storeList [simp]: "sameAllocator h (storeList h p l)"
  by (simp add: sameAllocator_def storeList_def)

lemma same_storeBuffer: "storeBuffer h p i f = Inr h' \<Longrightarrow> sameAllocator h h'"
  unfolding storeBuffer_def by (auto elim!: bindE_InrE)

lemma same_storeNumberBuffers: "storeNumberBuffers h p v = Inr h' \<Longrightarrow> sameAllocator h h'"
  unfolding storeNumberBuffers_def by (auto elim!: bindE_InrE)

lemma same_free: "free h p = Inr h' \<Longrightarrow> sameAllocator h h'"
  by (auto simp add: free_def sameAllocator_def split: if_splits)

lemma same_memcpy: "memcpy h d s n = Inr h' \<Longrightarrow> sameAllocator h h'"
  by (auto simp add: memcpy_def sameAllocator_def split: if_splits option.splits obj.splits)

lemma same_freeFirst: "freeFirst h audio j i = Inr h' \<Longrightarrow> sameAllocator h h'"
proof (induction h audio j i rule: freeFirst.induct)
  case (1 h audio j i)
  show ?case
  proof (cases "j < i")
    case False
    with "1.prems" show ?thesis
      by (simp add: freeFirst.simps [of h audio j i])
  next
    case True
    with "1.prems" have "bindE (loadBuffer h audio j) (\<lambda>b.
        bindE (free h (mData b)) (\<lambda>h'. freeFirst h' audio (Suc j) i)) = Inr h'"
      by (simp add: freeFirst.simps [of h audio j i])
    then obtain b :: AudioBuffer and h1 where "free h (mData b) = Inr h1"
      and "freeFirst h1 audio (Suc j) i = Inr h'"
      by (elim bindE_InrE) blast
    with "1.IH" [OF True] show ?thesis
      by (blast intro: sameAllocator_trans same_free)
  qed
qed

lemma same_allocData: "allocData audio b i h = Inr (ok, h') \<Longrightarrow> sameAllocator h h'"
  unfolding allocData_def
  by (auto split: if_splits prod.splits elim!: bindE_InrE
      dest!: same_malloc_bytes same_storeBuffer same_freeFirst same_free
      simp add: sameAllocator_def)


lemma same_allocLoop: "allocLoop audio n c b i h = Inr (r, h') \<Longrightarrow> sameAllocator h h'"
proof (induction audio n c b i h rule: allocLoop.induct)
  case (1 audio n c b i h)
  show ?case
  proof (cases "int i < sint n")
    case False
    with "1.prems" show ?thesis
      by (simp add: allocLoop_exit)
  next
    case True
    with "1.prems" have "bindE (allocData audio b i h) (\<lambda>(ok, h2).
        if \<not> ok then Inr (NULL, h2)
        else
          bindE (storeBuffer h2 audio i (\<lambda>x. x\<lparr>mDataByteSize := b\<rparr>)) (\<lambda>h3.
          bindE (storeBuffer h3 audio i (\<lambda>x. x\<lparr>mNumberChannels := c\<rparr>)) (\<lambda>h4.
          allocLoop audio n c b (Suc i) h4))) = Inr (r, h')"
      by (simp add: allocLoop.simps [of audio n c b i h])
    then obtain ok h2 where d: "allocData audio b i h = Inr (ok, h2)"
      and rest: "(if \<not> ok then Inr (NULL, h2)
        else
          bindE (storeBuffer h2 audio i (\<lambda>x. x\<lparr>mDataByteSize := b\<rparr>)) (\<lambda>h3.
          bindE (storeBuffer h3 audio i (\<lambda>x. x\<lparr>mNumberChannels := c\<rparr>)) (\<lambda>h4.
          allocLoop audio n c b (Suc i) h4))) = Inr (r, h')"
      by (elim bindE_InrE) auto
    from d have s2: "sameAllocator h h2" by (rule same_allocData)
    show ?thesis
    proof (cases ok)
      case False
      with rest s2 show ?thesis by simp
    next
      case ok: True
      with rest obtain h3 h4 where "storeBuffer h2 audio i (\<lambda>x. x\<lparr>mDataByteSize := b\<rparr>) = Inr h3"
        and "storeBuffer h3 audio i (\<lambda>x. x\<lparr>mNumberChannels := c\<rparr>) = Inr h4"
        and l: "allocLoop audio n c b (Suc i) h4 = Inr (r, h')"
        by (auto elim!: bindE_InrE)
      then have "sameAllocator h2 h3" "sameAllocator h3 h4"
        by (auto dest: same_storeBuffer)
      moreover from "1.IH" [OF True _ l] ok have "sameAllocator h4 h'" by simp
      ultimately show ?thesis
        using s2 by (blast intro: sameAllocator_trans)
    qed
  qed
qed

lemma same_AEAllocate:
  "AEAllocateAndInitAudioBufferList audioFormat frameCount h = Inr (r, h') \<Longrightarrow> sameAllocator h h'"
  unfolding AEAllocateAndInitAudioBufferList_def
  by (auto split: prod.splits if_splits elim!: bindE_InrE
      dest!: same_malloc_list same_storeNumberBuffers same_allocLoop simp add: sameAllocator_def)

lemma heap_eqI: "blocks h' = blocks h \<Longrightarrow> sameAllocator h h' \<Longrightarrow> h' = h\<lparr>ncalls := ncalls h'\<rparr>"
  by (simp add: sameAllocator_def)

section \<open>The copy loop\<close>

lemma readableBufferD:
  assumes "readableBuffer h b" and "mDataByteSize b \<noteq> 0"
  obtains bs where "lookup h (mData b) = Some (DataObj bs)" and "unat (mDataByteSize b) \<le> length bs"
  using assms by (auto simp add: readableBuffer_def split: option.splits obj.splits)

lemma copyLoop_exit:
  "lookup h original = Some (ListObj orig) \<Longrightarrow> \<not> i < unat (mNumberBuffers orig) \<Longrightarrow>
   copyLoop original audio i h = Inr (audio, h)"
  by (simp add: copyLoop.simps [of original audio i h])

lemma copyLoop_step_fail:
  assumes o: "lookup h original = Some (ListObj orig)"
    and a: "lookup h audio = Some (ListObj a)"
    and i: "i < unat (mNumberBuffers orig)" "i < length (mBuffers orig)" "i < length (mBuffers a)"
    and f: "fails h (ncalls h)"
    and own: "ownedSlots h audio (take i (mBuffers a))"
  shows "copyLoop original audio i h =
     Inr (NULL, h\<lparr>blocks := AList.restrict (- insert audio (mData ` set (take i (mBuffers a))))
                               (blocks h),
                   ncalls := Suc (ncalls h)\<rparr>)"
proof -
  let ?S = "mData ` set (take i (mBuffers a))"
  let ?src = "mBuffers orig ! i"
  let ?l2 = "a\<lparr>mBuffers := (mBuffers a)[i := (mBuffers a ! i)\<lparr>mData := NULL\<rparr>]\<rparr>"
  let ?h1 = "h\<lparr>ncalls := Suc (ncalls h)\<rparr>"
  let ?h2 = "storeList ?h1 audio ?l2"
  let ?h3 = "?h2\<lparr>blocks := AList.restrict (- ?S) (blocks ?h2)\<rparr>"
  from a have audio: "audio \<noteq> NULL" "audio \<in> fst ` set (blocks h)"
    by (auto dest: lookup_SomeD)
  from own have notin: "audio \<notin> ?S"
    by (auto simp add: ownedSlots_def list_all_iff)
  have ld: "loadBuffer h original i = Inr ?src"
    using o i(2) by (rule loadBuffer_eq)
  have m: "malloc_bytes h (unat (mDataByteSize ?src)) = (NULL, ?h1)"
    using f by (simp add: malloc_bytes_fail)
  have st: "storeBuffer ?h1 audio i (\<lambda>b. b\<lparr>mData := NULL\<rparr>) = Inr ?h2"
    using a i(3) by (simp add: storeBuffer_eq)
  have l2: "lookup ?h2 audio = Some (ListObj ?l2)"
    using audio by (simp add: lookup_storeList)
  have "freeFirst ?h2 audio 0 i =
      Inr (?h2\<lparr>blocks := AList.restrict (- mData ` set (drop 0 (take i (mBuffers ?l2)))) (blocks ?h2)\<rparr>)"
  proof (rule freeFirst_spec [OF l2])
    show "i \<le> length (mBuffers ?l2)" using i(3) by simp
    show "0 \<le> i" by simp
    show "ownedSlots ?h2 audio (drop 0 (take i (mBuffers ?l2)))"
      using own by (auto simp add: ownedSlots_def list_all_iff AList.dom_update)
  qed
  then have ff: "freeFirst ?h2 audio 0 i = Inr ?h3"
    by simp
  have "audio \<in> fst ` set (blocks ?h3)"
    using notin by (simp add: AList.dom_update)
  then have fr: "free ?h3 audio = Inr (?h3\<lparr>blocks := AList.restrict (- {audio}) (blocks ?h3)\<rparr>)"
    using audio by (simp add: free_live)
  have set_eq: "- {audio} \<inter> - ?S = - insert audio ?S"
    by auto
  have fin: "?h3\<lparr>blocks := AList.restrict (- {audio}) (blocks ?h3)\<rparr>
      = h\<lparr>blocks := AList.restrict (- insert audio ?S) (blocks h), ncalls := Suc (ncalls h)\<rparr>"
    by (simp add: storeList_def set_eq restrict_update_out)
  have "copyBody original audio i h =
      bindE (freeFirst ?h2 audio 0 i) (\<lambda>h3. bindE (free h3 audio) (\<lambda>h4. Inr (False, h4)))"
    by (simp add: copyBody_def ld m st)
  also have "\<dots> = bindE (free ?h3 audio) (\<lambda>h4. Inr (False, h4))"
    by (simp only: ff bindE_simps)
  also have "\<dots> = Inr (False, h\<lparr>blocks := AList.restrict (- insert audio ?S) (blocks h),
                                   ncalls := Suc (ncalls h)\<rparr>)"
    by (simp only: fr bindE_simps fin)
  finally show ?thesis
    using o i(1) by (simp add: copyLoop.simps [of original audio i h])
qed

lemma update_cons_other: "k \<noteq> k' \<Longrightarrow> AList.update k v ((k', v') # al) = (k', v') # AList.update k v al"
  by simp

lemma copyLoop_step_ok:
  assumes o: "lookup h original = Some (ListObj orig)"
    and a: "lookup h audio = Some (ListObj a)"
    and ne: "audio \<noteq> original"
    and i: "i < unat (mNumberBuffers orig)" "i < length (mBuffers orig)" "i < length (mBuffers a)"
    and f: "\<not> fails h (ncalls h)"
    and rd: "readableBuffer h (mBuffers orig ! i)"
  shows "copyLoop original audio i h =
     copyLoop original audio (Suc i)
       (h\<lparr>blocks := (freshAddr h,
             DataObj (take (unat (mDataByteSize (mBuffers orig ! i)))
                        (bytesAt h (mData (mBuffers orig ! i)))))
           # AList.update audio (ListObj (a\<lparr>mBuffers := (mBuffers a)
               [i := \<lparr>mNumberChannels = mNumberChannels (mBuffers orig ! i),
                      mDataByteSize = mDataByteSize (mBuffers orig ! i),
                      mData = freshAddr h\<rparr>]\<rparr>)) (blocks h),
          ncalls := Suc (ncalls h)\<rparr>)"
proof -
  let ?src = "mBuffers orig ! i"
  let ?n = "unat (mDataByteSize ?src)"
  let ?p = "freshAddr h"
  let ?h1 = "h\<lparr>blocks := (?p, DataObj (replicate ?n (junkByte h))) # blocks h,
                ncalls := Suc (ncalls h)\<rparr>"
  let ?a2 = "a\<lparr>mBuffers := (mBuffers a)[i := (mBuffers a ! i)\<lparr>mData := ?p\<rparr>]\<rparr>"
  let ?a3 = "a\<lparr>mBuffers := (mBuffers a)[i := (mBuffers a ! i)\<lparr>mData := ?p,
                  mDataByteSize := mDataByteSize ?src\<rparr>]\<rparr>"
  let ?a4 = "a\<lparr>mBuffers := (mBuffers a)
               [i := \<lparr>mNumberChannels = mNumberChannels ?src,
                      mDataByteSize = mDataByteSize ?src, mData = ?p\<rparr>]\<rparr>"
  let ?h4 = "storeList ?h1 audio ?a4"
  let ?h5 = "h\<lparr>blocks := (?p, DataObj (take ?n (bytesAt h (mData ?src))))
                   # AList.update audio (ListObj ?a4) (blocks h),
                ncalls := Suc (ncalls h)\<rparr>"
  from a have audio: "audio \<noteq> NULL" "audio \<noteq> ?p"
    by (auto dest: lookup_SomeD)
  from o have orig: "original \<noteq> NULL" "original \<noteq> ?p"
    by (auto dest: lookup_SomeD)
  have ld: "loadBuffer h original i = Inr ?src"
    using o i(2) by (rule loadBuffer_eq)
  have m: "malloc_bytes h ?n = (?p, ?h1)"
    using f by (simp add: malloc_bytes_ok)
  have a1: "lookup ?h1 audio = Some (ListObj a)"
    using audio a by (simp add: lookup_def)
  have o1: "lookup ?h1 original = Some (ListObj orig)"
    using orig o by (simp add: lookup_def)
  have st2: "storeBuffer ?h1 audio i (\<lambda>b. b\<lparr>mData := ?p\<rparr>) = Inr (storeList ?h1 audio ?a2)"
    using i(3) by (simp add: storeBuffer_eq [OF a1])
  have o_any: "lookup (storeList ?h1 audio l) original = Some (ListObj orig)" for l
    using o1 ne audio by (simp add: lookup_storeList)
  have a_any: "lookup (storeList ?h1 audio l) audio = Some (ListObj l)" for l
    using audio by (simp add: lookup_storeList)
  have ld_any: "loadBuffer (storeList ?h1 audio l) original i = Inr ?src" for l
    using o_any i(2) by (rule loadBuffer_eq)
  have st3: "storeBuffer (storeList ?h1 audio ?a2) audio i (\<lambda>b. b\<lparr>mDataByteSize := mDataByteSize ?src\<rparr>)
      = Inr (storeList ?h1 audio ?a3)"
    using i(3) by (simp add: storeBuffer_eq [OF a_any])
  have st4: "storeBuffer (storeList ?h1 audio ?a3) audio i (\<lambda>b. b\<lparr>mNumberChannels := mNumberChannels ?src\<rparr>)
      = Inr ?h4"
    using i(3) by (simp add: storeBuffer_eq [OF a_any])
  have ld4: "loadBuffer ?h4 audio i
      = Inr \<lparr>mNumberChannels = mNumberChannels ?src, mDataByteSize = mDataByteSize ?src, mData = ?p\<rparr>"
    using i(3) by (simp add: loadBuffer_eq [OF a_any])
  have blk4: "blocks ?h4 = (?p, DataObj (replicate ?n (junkByte h))) # AList.update audio (ListObj ?a4) (blocks h)"
    using audio by simp
  have mc: "memcpy ?h4 ?p (mData ?src) ?n = Inr ?h5"
  proof (cases "?n = 0")
    case True
    then show ?thesis
      using audio by (simp add: memcpy_def storeList_def)
  next
    case False
    then have "mDataByteSize ?src \<noteq> 0" by auto
    with rd obtain bs where bs: "lookup h (mData ?src) = Some (DataObj bs)" "?n \<le> length bs"
      by (rule readableBufferD)
    from bs(1) a have s: "mData ?src \<noteq> NULL" "mData ?src \<noteq> ?p" "mData ?src \<noteq> audio"
      by (auto dest: lookup_SomeD)
    have ls: "lookup ?h4 (mData ?src) = Some (DataObj bs)"
      using s bs(1) audio by (simp add: lookup_def AList.update_conv')
    have lp: "lookup ?h4 ?p = Some (DataObj (replicate ?n (junkByte h)))"
      using audio by (simp add: lookup_def AList.update_conv')
    have by': "bytesAt h (mData ?src) = bs"
      by (simp add: bytesAt_def bs(1))
    have "memcpy ?h4 ?p (mData ?src) ?n =
        Inr (?h4\<lparr>blocks := AList.update ?p
               (DataObj (take ?n bs @ drop ?n (replicate ?n (junkByte h)))) (blocks ?h4)\<rparr>)"
      using False bs(2) by (simp add: memcpy_def ls lp)
    also have "?h4\<lparr>blocks := AList.update ?p
               (DataObj (take ?n bs @ drop ?n (replicate ?n (junkByte h)))) (blocks ?h4)\<rparr> = ?h5"
      using audio by (simp add: storeList_def by')
    finally show ?thesis .
  qed
  have "copyBody original audio i h = Inr (True, ?h5)"
    using audio by (simp add: copyBody_def ld m st2 ld_any st3 st4 ld4 mc)
  then show ?thesis
    using o i(1) by (simp add: copyLoop.simps [of original audio i h])
qed

lemma frame_readable:
  assumes rd: "readableBuffer h b"
    and frame: "\<And>q. q \<noteq> audio \<Longrightarrow> lookup h q \<noteq> None \<Longrightarrow> lookup h' q = lookup h q"
    and a: "lookup h audio = Some (ListObj a)"
  shows "readableBuffer h' b"
    and "take (unat (mDataByteSize b)) (bytesAt h' (mData b))
         = take (unat (mDataByteSize b)) (bytesAt h (mData b))"
proof -
  show "readableBuffer h' b"
  proof (cases "mDataByteSize b = 0")
    case True
    then show ?thesis by (simp add: readableBuffer_def)
  next
    case False
    with rd obtain bs where bs: "lookup h (mData b) = Some (DataObj bs)"
      "unat (mDataByteSize b) \<le> length bs"
      by (rule readableBufferD)
    with a have "mData b \<noteq> audio" by auto
    with frame [of "mData b"] bs(1) have "lookup h' (mData b) = Some (DataObj bs)" by simp
    with bs(2) show ?thesis by (simp add: readableBuffer_def)
  qed
  show "take (unat (mDataByteSize b)) (bytesAt h' (mData b))
         = take (unat (mDataByteSize b)) (bytesAt h (mData b))"
  proof (cases "mDataByteSize b = 0")
    case True
    then show ?thesis by simp
  next
    case False
    with rd obtain bs where bs: "lookup h (mData b) = Some (DataObj bs)"
      by (rule readableBufferD)
    with a have "mData b \<noteq> audio" by auto
    with frame [of "mData b"] bs have "lookup h' (mData b) = Some (DataObj bs)" by simp
    with bs show ?thesis by (simp add: bytesAt_def)
  qed
qed

lemma copyLoop_spec:
  assumes o: "lookup h original = Some (ListObj orig)"
    and a: "lookup h audio = Some (ListObj a)"
    and ne: "audio \<noteq> original"
    and capo: "unat (mNumberBuffers orig) \<le> length (mBuffers orig)"
    and capa: "unat (mNumberBuffers orig) \<le> length (mBuffers a)"
    and rd: "\<forall>j. i \<le> j \<and> j < unat (mNumberBuffers orig) \<longrightarrow> readableBuffer h (mBuffers orig ! j)"
    and own: "ownedSlots h audio (take i (mBuffers a))"
    and iN: "i \<le> unat (mNumberBuffers orig)"
  shows "\<exists>r h'. copyLoop original audio i h = Inr (r, h')
     \<and> (r = NULL \<longrightarrow>
           (\<exists>k. i \<le> k \<and> k < unat (mNumberBuffers orig) \<and> fails h (ncalls h + (k - i)))
           \<and> blocks h' = AList.restrict (- insert audio (mData ` set (take i (mBuffers a)))) (blocks h))
     \<and> (r \<noteq> NULL \<longrightarrow> r = audio
           \<and> (\<forall>k. i \<le> k \<and> k < unat (mNumberBuffers orig) \<longrightarrow> \<not> fails h (ncalls h + (k - i)))
           \<and> ncalls h' = ncalls h + (unat (mNumberBuffers orig) - i)
           \<and> (\<forall>q. q \<noteq> audio \<longrightarrow> lookup h q \<noteq> None \<longrightarrow> lookup h' q = lookup h q)
           \<and> (\<exists>a'. lookup h' audio = Some (ListObj a')
                 \<and> mNumberBuffers a' = mNumberBuffers a
                 \<and> length (mBuffers a') = length (mBuffers a)
                 \<and> ownedSlots h' audio (take (unat (mNumberBuffers orig)) (mBuffers a'))
                 \<and> (\<forall>j<i. mBuffers a' ! j = mBuffers a ! j)
                 \<and> (\<forall>j. i \<le> j \<and> j < unat (mNumberBuffers orig) \<longrightarrow>
                       mDataByteSize (mBuffers a' ! j) = mDataByteSize (mBuffers orig ! j)
                       \<and> mNumberChannels (mBuffers a' ! j) = mNumberChannels (mBuffers orig ! j)
                       \<and> lookup h (mData (mBuffers a' ! j)) = None
                       \<and> lookup h' (mData (mBuffers a' ! j))
                           = Some (DataObj (take (unat (mDataByteSize (mBuffers orig ! j)))
                                              (bytesAt h (mData (mBuffers orig ! j))))))))"
  using o a rd own iN capa
proof (induction "unat (mNumberBuffers orig) - i" arbitrary: i h a)
  case 0
  then have exit: "\<not> i < unat (mNumberBuffers orig)" and eq: "unat (mNumberBuffers orig) = i"
    by linarith+
  from "0.prems"(2) have "audio \<noteq> NULL" by (auto dest: lookup_SomeD)
  moreover have "copyLoop original audio i h = Inr (audio, h)"
    using "0.prems"(1) exit by (rule copyLoop_exit)
  ultimately show ?case
    using "0.prems"(2,4) exit unfolding eq by auto
next
  case (Suc m)
  let ?N = "unat (mNumberBuffers orig)"
  let ?S = "mData ` set (take i (mBuffers a))"
  let ?src = "mBuffers orig ! i"
  note o = Suc.prems(1) and a = Suc.prems(2) and rd = Suc.prems(3) and own = Suc.prems(4)
    and capa = Suc.prems(6)
  from Suc.hyps(2) have lt: "i < ?N" and m: "m = ?N - Suc i" by linarith+
  from lt capo capa have il: "i < length (mBuffers orig)" "i < length (mBuffers a)" by linarith+
  from a have audio: "audio \<noteq> NULL" "audio \<in> fst ` set (blocks h)"
    by (auto dest: lookup_SomeD)
  show ?case
  proof (cases "fails h (ncalls h)")
    case True
    have "copyLoop original audio i h =
        Inr (NULL, h\<lparr>blocks := AList.restrict (- insert audio ?S) (blocks h),
                      ncalls := Suc (ncalls h)\<rparr>)"
      using o a lt il True own by (rule copyLoop_step_fail)
    moreover have "\<exists>k. i \<le> k \<and> k < ?N \<and> fails h (ncalls h + (k - i))"
      using lt True by (intro exI [of _ i]) simp
    ultimately show ?thesis by simp
  next
    case ok: False
    define p where "p = freshAddr h"
    define nb where "nb = \<lparr>mNumberChannels = mNumberChannels ?src,
        mDataByteSize = mDataByteSize ?src, mData = p\<rparr>"
    define a4 where "a4 = a\<lparr>mBuffers := (mBuffers a)[i := nb]\<rparr>"
    define bytes where "bytes = take (unat (mDataByteSize ?src)) (bytesAt h (mData ?src))"
    define h5 where "h5 = h\<lparr>blocks := (p, DataObj bytes) # AList.update audio (ListObj a4) (blocks h),
        ncalls := Suc (ncalls h)\<rparr>"
    have rdi: "readableBuffer h ?src"
      using rd lt by simp
    have step: "copyLoop original audio i h = copyLoop original audio (Suc i) h5"
      unfolding h5_def bytes_def a4_def nb_def p_def
      using o a ne lt il ok rdi by (rule copyLoop_step_ok)
    have p: "p \<noteq> NULL" "p \<notin> fst ` set (blocks h)" "lookup h p = None" "p \<noteq> audio" "p \<noteq> original"
      using freshAddr_notin [of h] audio o by (auto simp add: p_def)
    have lk5: "lookup h5 q = (if q = p then Some (DataObj bytes)
        else if q = audio then Some (ListObj a4) else lookup h q)" for q
      using p(1) audio(1) by (simp add: lookup_def h5_def AList.update_conv')
    have frame5: "lookup h5 q = lookup h q" if "q \<noteq> audio" "lookup h q \<noteq> None" for q
      using that p(3) by (auto simp add: lk5)
    have live5: "lookup h q = None" if "lookup h5 q = None" for q
      using that by (simp add: lk5 split: if_splits)
    have o5: "lookup h5 original = Some (ListObj orig)"
      using o ne p(5) by (simp add: lk5)
    have a5: "lookup h5 audio = Some (ListObj a4)"
      using p(4) by (simp add: lk5)
    have rd5: "\<forall>j. Suc i \<le> j \<and> j < ?N \<longrightarrow> readableBuffer h5 (mBuffers orig ! j)"
    proof (intro allI impI)
      fix j assume "Suc i \<le> j \<and> j < ?N"
      with rd have "readableBuffer h (mBuffers orig ! j)" by simp
      then show "readableBuffer h5 (mBuffers orig ! j)"
        using frame5 a by (rule frame_readable(1))
    qed
    have tk: "take (Suc i) (mBuffers a4) = take i (mBuffers a) @ [nb]"
      using il(2) by (simp add: a4_def take_Suc_conv_app_nth)
    have keys5: "fst ` set (blocks h5) = insert p (insert audio (fst ` set (blocks h)))"
      by (simp add: h5_def AList.dom_update)
    have own5: "ownedSlots h5 audio (take (Suc i) (mBuffers a4))"
      using own p unfolding tk
      by (auto simp add: ownedSlots_def list_all_iff nb_def keys5)
    have img: "mData ` set (take (Suc i) (mBuffers a4)) = insert p ?S"
      unfolding tk by (simp add: nb_def)
    have blk: "AList.restrict (- insert audio (insert p ?S)) (blocks h5)
        = AList.restrict (- insert audio ?S) (blocks h)"
    proof -
      have "AList.restrict (- insert audio (insert p ?S)) (blocks h5)
          = AList.restrict (- insert audio (insert p ?S)) (blocks h)"
        by (simp add: h5_def restrict_update_out)
      also have "\<dots> = AList.restrict (- insert audio ?S) (blocks h)"
        using p(2) by (intro restrict_cong_set) (auto simp add: image_iff)
      finally show ?thesis .
    qed
    have fl5: "fails h5 = fails h" "ncalls h5 = Suc (ncalls h)"
      by (simp_all add: h5_def)
    have len4: "length (mBuffers a4) = length (mBuffers a)" "mNumberBuffers a4 = mNumberBuffers a"
      by (simp_all add: a4_def)
    have capa4: "?N \<le> length (mBuffers a4)"
      using capa by (simp add: len4)
    have iN4: "Suc i \<le> ?N" using lt by simp
    from Suc.hyps(1) [OF m o5 a5 rd5 own5 iN4 capa4]
    obtain r h' where res: "copyLoop original audio (Suc i) h5 = Inr (r, h')"
      and rnull: "(r = NULL \<longrightarrow>
           (\<exists>k. Suc i \<le> k \<and> k < ?N \<and> fails h5 (ncalls h5 + (k - Suc i)))
           \<and> blocks h' = AList.restrict (- insert audio (mData ` set (take (Suc i) (mBuffers a4)))) (blocks h5))"
      and rok: "(r \<noteq> NULL \<longrightarrow> r = audio
           \<and> (\<forall>k. Suc i \<le> k \<and> k < ?N \<longrightarrow> \<not> fails h5 (ncalls h5 + (k - Suc i)))
           \<and> ncalls h' = ncalls h5 + (?N - Suc i)
           \<and> (\<forall>q. q \<noteq> audio \<longrightarrow> lookup h5 q \<noteq> None \<longrightarrow> lookup h' q = lookup h5 q)
           \<and> (\<exists>a'. lookup h' audio = Some (ListObj a')
                 \<and> mNumberBuffers a' = mNumberBuffers a4
                 \<and> length (mBuffers a') = length (mBuffers a4)
                 \<and> ownedSlots h' audio (take ?N (mBuffers a'))
                 \<and> (\<forall>j<Suc i. mBuffers a' ! j = mBuffers a4 ! j)
                 \<and> (\<forall>j. Suc i \<le> j \<and> j < ?N \<longrightarrow>
                       mDataByteSize (mBuffers a' ! j) = mDataByteSize (mBuffers orig ! j)
                       \<and> mNumberChannels (mBuffers a' ! j) = mNumberChannels (mBuffers orig ! j)
                       \<and> lookup h5 (mData (mBuffers a' ! j)) = None
                       \<and> lookup h' (mData (mBuffers a' ! j))
                           = Some (DataObj (take (unat (mDataByteSize (mBuffers orig ! j)))
                                              (bytesAt h5 (mData (mBuffers orig ! j))))))))"
      by (elim exE conjE) (rule that)
    have shift: "Suc (ncalls h) + (k - Suc i) = ncalls h + (k - i)" if "Suc i \<le> k" for k
      using that by simp
    show ?thesis
    proof (cases "r = NULL")
      case True
      from rnull [THEN mp, OF True]
      obtain k where k: "Suc i \<le> k" "k < ?N" "fails h5 (ncalls h5 + (k - Suc i))"
        and b': "blocks h' = AList.restrict (- insert audio (mData ` set (take (Suc i) (mBuffers a4)))) (blocks h5)"
        by (elim exE conjE) (rule that)
      from k(3) have "fails h (Suc (ncalls h) + (k - Suc i))"
        unfolding fl5 .
      then have "fails h (ncalls h + (k - i))"
        unfolding shift [OF k(1)] .
      with k have "\<exists>k. i \<le> k \<and> k < ?N \<and> fails h (ncalls h + (k - i))"
        by (intro exI [of _ k]) simp
      moreover from b' have "blocks h' = AList.restrict (- insert audio ?S) (blocks h)"
        unfolding img blk .
      ultimately show ?thesis
        unfolding step res using True by simp
    next
      case nn: False
      from rok [THEN mp, OF nn]
      obtain a' where ra: "r = audio"
        and nf: "\<forall>k. Suc i \<le> k \<and> k < ?N \<longrightarrow> \<not> fails h5 (ncalls h5 + (k - Suc i))"
        and nc: "ncalls h' = ncalls h5 + (?N - Suc i)"
        and fr: "\<forall>q. q \<noteq> audio \<longrightarrow> lookup h5 q \<noteq> None \<longrightarrow> lookup h' q = lookup h5 q"
        and a': "lookup h' audio = Some (ListObj a')"
          "mNumberBuffers a' = mNumberBuffers a4" "length (mBuffers a') = length (mBuffers a4)"
          "ownedSlots h' audio (take ?N (mBuffers a'))"
          "\<forall>j<Suc i. mBuffers a' ! j = mBuffers a4 ! j"
        and new5: "\<forall>j. Suc i \<le> j \<and> j < ?N \<longrightarrow>
                       mDataByteSize (mBuffers a' ! j) = mDataByteSize (mBuffers orig ! j)
                       \<and> mNumberChannels (mBuffers a' ! j) = mNumberChannels (mBuffers orig ! j)
                       \<and> lookup h5 (mData (mBuffers a' ! j)) = None
                       \<and> lookup h' (mData (mBuffers a' ! j))
                           = Some (DataObj (take (unat (mDataByteSize (mBuffers orig ! j)))
                                              (bytesAt h5 (mData (mBuffers orig ! j)))))"
        by (elim exE conjE) (rule that)
      have nf': "\<forall>k. i \<le> k \<and> k < ?N \<longrightarrow> \<not> fails h (ncalls h + (k - i))"
      proof (intro allI impI)
        fix k assume k: "i \<le> k \<and> k < ?N"
        show "\<not> fails h (ncalls h + (k - i))"
        proof (cases "k = i")
          case True
          with ok show ?thesis by simp
        next
          case False
          with k have k': "Suc i \<le> k" by simp
          with nf k have "\<not> fails h5 (ncalls h5 + (k - Suc i))" by blast
          then have "\<not> fails h (Suc (ncalls h) + (k - Suc i))"
            unfolding fl5 .
          then show ?thesis
            unfolding shift [OF k'] .
        qed
      qed
      have nc': "ncalls h' = ncalls h + (?N - i)"
        using nc lt unfolding fl5 by simp
      have fr': "\<forall>q. q \<noteq> audio \<longrightarrow> lookup h q \<noteq> None \<longrightarrow> lookup h' q = lookup h q"
      proof (intro allI impI)
        fix q assume q: "q \<noteq> audio" "lookup h q \<noteq> None"
        then have "lookup h5 q = lookup h q" by (rule frame5)
        with q fr show "lookup h' q = lookup h q" by simp
      qed
      have old: "\<forall>j<i. mBuffers a' ! j = mBuffers a ! j"
        using a'(5) by (simp add: a4_def)
      have ati: "mBuffers a' ! i = nb"
        using a'(5) il(2) by (simp add: a4_def)
      have new: "\<forall>j. i \<le> j \<and> j < ?N \<longrightarrow>
                       mDataByteSize (mBuffers a' ! j) = mDataByteSize (mBuffers orig ! j)
                       \<and> mNumberChannels (mBuffers a' ! j) = mNumberChannels (mBuffers orig ! j)
                       \<and> lookup h (mData (mBuffers a' ! j)) = None
                       \<and> lookup h' (mData (mBuffers a' ! j))
                           = Some (DataObj (take (unat (mDataByteSize (mBuffers orig ! j)))
                                              (bytesAt h (mData (mBuffers orig ! j)))))"
      proof (intro allI impI)
        fix j assume j: "i \<le> j \<and> j < ?N"
        show "mDataByteSize (mBuffers a' ! j) = mDataByteSize (mBuffers orig ! j)
                       \<and> mNumberChannels (mBuffers a' ! j) = mNumberChannels (mBuffers orig ! j)
                       \<and> lookup h (mData (mBuffers a' ! j)) = None
                       \<and> lookup h' (mData (mBuffers a' ! j))
                           = Some (DataObj (take (unat (mDataByteSize (mBuffers orig ! j)))
                                              (bytesAt h (mData (mBuffers orig ! j)))))"
        proof (cases "j = i")
          case True
          have "lookup h5 p = Some (DataObj bytes)" by (simp add: lk5)
          with fr p(4) have "lookup h' p = Some (DataObj bytes)" by simp
          then show ?thesis
            using True p(3) by (simp add: ati nb_def bytes_def)
        next
          case False
          with j have j': "Suc i \<le> j \<and> j < ?N" by simp
          with new5 have n5: "mDataByteSize (mBuffers a' ! j) = mDataByteSize (mBuffers orig ! j)"
            "mNumberChannels (mBuffers a' ! j) = mNumberChannels (mBuffers orig ! j)"
            "lookup h5 (mData (mBuffers a' ! j)) = None"
            "lookup h' (mData (mBuffers a' ! j))
                = Some (DataObj (take (unat (mDataByteSize (mBuffers orig ! j)))
                                   (bytesAt h5 (mData (mBuffers orig ! j)))))"
            by blast+
          from j rd have "readableBuffer h (mBuffers orig ! j)" by simp
          then have "take (unat (mDataByteSize (mBuffers orig ! j))) (bytesAt h5 (mData (mBuffers orig ! j)))
              = take (unat (mDataByteSize (mBuffers orig ! j))) (bytesAt h (mData (mBuffers orig ! j)))"
            using frame5 a by (rule frame_readable(2))
          with n5 live5 show ?thesis by simp
        qed
      qed
      show ?thesis
        unfolding step res
        using nn ra nf' nc' fr' a'(1,4) a'(2,3) [unfolded len4] old new by auto
    qed
  qed
qed

lemma frame_readable_all:
  assumes rd: "readableBuffer h b"
    and frame: "\<And>q. lookup h q \<noteq> None \<Longrightarrow> lookup h' q = lookup h q"
  shows "readableBuffer h' b"
    and "take (unat (mDataByteSize b)) (bytesAt h' (mData b))
         = take (unat (mDataByteSize b)) (bytesAt h (mData b))"
proof -
  show "readableBuffer h' b"
  proof (cases "mDataByteSize b = 0")
    case True
    then show ?thesis by (simp add: readableBuffer_def)
  next
    case False
    with rd obtain bs where bs: "lookup h (mData b) = Some (DataObj bs)"
      "unat (mDataByteSize b) \<le> length bs"
      by (rule readableBufferD)
    with frame [of "mData b"] have "lookup h' (mData b) = Some (DataObj bs)" by simp
    with bs(2) show ?thesis by (simp add: readableBuffer_def)
  qed
  show "take (unat (mDataByteSize b)) (bytesAt h' (mData b))
         = take (unat (mDataByteSize b)) (bytesAt h (mData b))"
  proof (cases "mDataByteSize b = 0")
    case True
    then show ?thesis by simp
  next
    case False
    with rd obtain bs where bs: "lookup h (mData b) = Some (DataObj bs)"
      by (rule readableBufferD)
    with frame [of "mData b"] have "lookup h' (mData b) = Some (DataObj bs)" by simp
    with bs show ?thesis by (simp add: bytesAt_def)
  qed
qed

lemma slots_copy: "unat (n :: UInt32) \<le> slotsIn (copyBytes n)"
proof -
  have "unat (n - 1) < 2 ^ 32"
    using unsigned_less [of "n - 1"] by simp
  then have "24 + unat (n - 1) * 16 < (2 :: nat) ^ 64" by simp
  then have "copyBytes n = 24 + unat (n - 1) * 16"
    by (simp add: copyBytes_def sizes)
  then have s: "slotsIn (copyBytes n) = unat (n - 1) + 1"
    by (simp add: slotsIn_def sizes)
  show ?thesis
  proof (cases "n = 0")
    case True
    then show ?thesis by simp
  next
    case False
    then have "unat (n - 1) = unat n - 1" by (rule unat_minus_one)
    with s show ?thesis by simp
  qed
qed

lemma validListD:
  assumes "validList h p" and "lookup h p = Some (ListObj l)"
  shows "unat (mNumberBuffers l) \<le> length (mBuffers l)"
    and "\<forall>j<unat (mNumberBuffers l). readableBuffer h (mBuffers l ! j)"
  using assms by (auto simp add: validList_def list_all_length)

lemma copy_spec:
  assumes v: "validList h original" and o: "lookup h original = Some (ListObj orig)"
  shows "\<exists>r h'. AECopyAudioBufferList original h = Inr (r, h')
     \<and> (r = NULL \<longrightarrow> blocks h' = blocks h
           \<and> (fails h (ncalls h)
               \<or> (\<exists>k. k < unat (mNumberBuffers orig) \<and> fails h (Suc (ncalls h) + k))))
     \<and> (r \<noteq> NULL \<longrightarrow> r = freshAddr h \<and> \<not> fails h (ncalls h)
           \<and> (\<forall>k. k < unat (mNumberBuffers orig) \<longrightarrow> \<not> fails h (Suc (ncalls h) + k))
           \<and> ncalls h' = Suc (ncalls h) + unat (mNumberBuffers orig)
           \<and> (\<forall>q. lookup h q \<noteq> None \<longrightarrow> lookup h' q = lookup h q)
           \<and> (\<exists>a'. lookup h' r = Some (ListObj a')
                 \<and> mNumberBuffers a' = mNumberBuffers orig
                 \<and> unat (mNumberBuffers orig) \<le> length (mBuffers a')
                 \<and> ownedSlots h' r (take (unat (mNumberBuffers orig)) (mBuffers a'))
                 \<and> (\<forall>j. j < unat (mNumberBuffers orig) \<longrightarrow>
                       mDataByteSize (mBuffers a' ! j) = mDataByteSize (mBuffers orig ! j)
                       \<and> mNumberChannels (mBuffers a' ! j) = mNumberChannels (mBuffers orig ! j)
                       \<and> lookup h (mData (mBuffers a' ! j)) = None
                       \<and> lookup h' (mData (mBuffers a' ! j))
                           = Some (DataObj (take (unat (mDataByteSize (mBuffers orig ! j)))
                                              (bytesAt h (mData (mBuffers orig ! j))))))))"
proof (cases "fails h (ncalls h)")
  case True
  then show ?thesis
    using o by (simp add: AECopyAudioBufferList_def malloc_list_fail)
next
  case False
  note ok = False
  let ?N = "unat (mNumberBuffers orig)"
  define p where "p = freshAddr h"
  define l0 where "l0 = \<lparr>mNumberBuffers = junkWord h,
       mBuffers = replicate (slotsIn (copyBytes (mNumberBuffers orig))) (junkBuffer h)\<rparr>"
  define l1 where "l1 = l0\<lparr>mNumberBuffers := mNumberBuffers orig\<rparr>"
  define h1 where "h1 = h\<lparr>blocks := (p, ListObj l0) # blocks h, ncalls := Suc (ncalls h)\<rparr>"
  define h2 where "h2 = storeList h1 p l1"
  from o have orig: "original \<noteq> NULL" "original \<in> fst ` set (blocks h)"
    by (auto dest: lookup_SomeD)
  have p: "p \<noteq> NULL" "p \<notin> fst ` set (blocks h)" "lookup h p = None" "p \<noteq> original"
    using freshAddr_notin [of h] orig by (auto simp add: p_def)
  have lk2: "lookup h2 q = (if q = p then Some (ListObj l1) else lookup h q)" for q
    using p(1) by (simp add: lookup_def h2_def h1_def storeList_def)
  have frame2: "lookup h2 q = lookup h q" if "lookup h q \<noteq> None" for q
    using that p(3) by (auto simp add: lk2)
  have live2: "lookup h q = None" if "lookup h2 q = None" for q
    using that by (simp add: lk2 split: if_splits)
  have l1': "lookup h1 p = Some (ListObj l0)"
    using p by (simp add: lookup_def h1_def)
  have o1: "lookup h1 original = Some (ListObj orig)"
    using o p(4) orig(1) by (simp add: lookup_def h1_def)
  have o2: "lookup h2 original = Some (ListObj orig)"
    using o p(4) by (simp add: lk2)
  have a2: "lookup h2 p = Some (ListObj l1)"
    by (simp add: lk2)
  have m: "malloc_AudioBufferList h (copyBytes (mNumberBuffers orig)) = (p, h1)"
    using False by (simp add: malloc_list_ok p_def h1_def l0_def)
  have st: "storeNumberBuffers h1 p (mNumberBuffers orig) = Inr h2"
    by (simp add: storeNumberBuffers_eq [OF l1'] h2_def l1_def)
  have run: "AECopyAudioBufferList original h = copyLoop original p 0 h2"
    unfolding AECopyAudioBufferList_def
    using p(1) o o1 by (simp add: m st)
  have blk2: "blocks h2 = (p, ListObj l1) # blocks h"
    by (simp add: h2_def h1_def)
  note vd = validListD [OF v o]
  have capa: "?N \<le> length (mBuffers l1)"
    by (simp add: slots_copy l1_def l0_def)
  have rd: "\<forall>j. 0 \<le> j \<and> j < ?N \<longrightarrow> readableBuffer h2 (mBuffers orig ! j)"
  proof (intro allI impI)
    fix j assume "0 \<le> j \<and> j < ?N"
    with vd(2) have "readableBuffer h (mBuffers orig ! j)" by simp
    then show "readableBuffer h2 (mBuffers orig ! j)"
      using frame2 by (rule frame_readable_all(1))
  qed
  have own: "ownedSlots h2 p (take 0 (mBuffers l1))"
    by (simp add: ownedSlots_def)
  have fl: "fails h2 = fails h" "ncalls h2 = Suc (ncalls h)"
    by (simp_all add: h2_def h1_def)
  have l1f: "mNumberBuffers l1 = mNumberBuffers orig"
    by (simp add: l1_def l0_def)
  have z: "0 \<le> ?N" by simp
  from copyLoop_spec [OF o2 a2 p(4) vd(1) capa rd own z]
  obtain r h' where res: "copyLoop original p 0 h2 = Inr (r, h')"
    and rnull: "r = NULL \<longrightarrow>
           (\<exists>k. 0 \<le> k \<and> k < ?N \<and> fails h2 (ncalls h2 + (k - 0)))
           \<and> blocks h' = AList.restrict (- insert p (mData ` set (take 0 (mBuffers l1)))) (blocks h2)"
    and rok: "r \<noteq> NULL \<longrightarrow> r = p
           \<and> (\<forall>k. 0 \<le> k \<and> k < ?N \<longrightarrow> \<not> fails h2 (ncalls h2 + (k - 0)))
           \<and> ncalls h' = ncalls h2 + (?N - 0)
           \<and> (\<forall>q. q \<noteq> p \<longrightarrow> lookup h2 q \<noteq> None \<longrightarrow> lookup h' q = lookup h2 q)
           \<and> (\<exists>a'. lookup h' p = Some (ListObj a')
                 \<and> mNumberBuffers a' = mNumberBuffers l1
                 \<and> length (mBuffers a') = length (mBuffers l1)
                 \<and> ownedSlots h' p (take ?N (mBuffers a'))
                 \<and> (\<forall>j<0. mBuffers a' ! j = mBuffers l1 ! j)
                 \<and> (\<forall>j. 0 \<le> j \<and> j < ?N \<longrightarrow>
                       mDataByteSize (mBuffers a' ! j) = mDataByteSize (mBuffers orig ! j)
                       \<and> mNumberChannels (mBuffers a' ! j) = mNumberChannels (mBuffers orig ! j)
                       \<and> lookup h2 (mData (mBuffers a' ! j)) = None
                       \<and> lookup h' (mData (mBuffers a' ! j))
                           = Some (DataObj (take (unat (mDataByteSize (mBuffers orig ! j)))
                                              (bytesAt h2 (mData (mBuffers orig ! j)))))))"
    by (elim exE conjE) (rule that)
  show ?thesis
  proof (cases "r = NULL")
    case True
    from rnull [THEN mp, OF True]
    obtain k where k: "k < ?N" "fails h2 (ncalls h2 + (k - 0))"
      and bl: "blocks h' = AList.restrict (- insert p (mData ` set (take 0 (mBuffers l1)))) (blocks h2)"
      by (elim exE conjE) (rule that)
    from k have "\<exists>k. k < ?N \<and> fails h (Suc (ncalls h) + k)"
      unfolding fl by auto
    moreover from bl have "blocks h' = AList.restrict (- {p}) ((p, ListObj l1) # blocks h)"
      unfolding blk2 by simp
    then have "blocks h' = blocks h"
      unfolding restrict_fresh_cons [OF p(2)] .
    ultimately show ?thesis
      unfolding run res using True by simp
  next
    case nn: False
    from rok [THEN mp, OF nn]
    obtain a' where ra: "r = p"
      and nf: "\<forall>k. 0 \<le> k \<and> k < ?N \<longrightarrow> \<not> fails h2 (ncalls h2 + (k - 0))"
      and nc: "ncalls h' = ncalls h2 + (?N - 0)"
      and fr: "\<forall>q. q \<noteq> p \<longrightarrow> lookup h2 q \<noteq> None \<longrightarrow> lookup h' q = lookup h2 q"
      and a': "lookup h' p = Some (ListObj a')"
        "mNumberBuffers a' = mNumberBuffers l1" "length (mBuffers a') = length (mBuffers l1)"
        "ownedSlots h' p (take ?N (mBuffers a'))"
      and old: "\<forall>j<0. mBuffers a' ! j = mBuffers l1 ! j"
      and new2: "\<forall>j. 0 \<le> j \<and> j < ?N \<longrightarrow>
                       mDataByteSize (mBuffers a' ! j) = mDataByteSize (mBuffers orig ! j)
                       \<and> mNumberChannels (mBuffers a' ! j) = mNumberChannels (mBuffers orig ! j)
                       \<and> lookup h2 (mData (mBuffers a' ! j)) = None
                       \<and> lookup h' (mData (mBuffers a' ! j))
                           = Some (DataObj (take (unat (mDataByteSize (mBuffers orig ! j)))
                                              (bytesAt h2 (mData (mBuffers orig ! j)))))"
      by (elim exE conjE) (rule that)
    have nf': "\<forall>k. k < ?N \<longrightarrow> \<not> fails h (Suc (ncalls h) + k)"
      using nf unfolding fl by simp
    have nc': "ncalls h' = Suc (ncalls h) + ?N"
      using nc unfolding fl by simp
    have fr': "\<forall>q. lookup h q \<noteq> None \<longrightarrow> lookup h' q = lookup h q"
    proof (intro allI impI)
      fix q assume q: "lookup h q \<noteq> None"
      then have e: "lookup h2 q = lookup h q" by (rule frame2)
      from q p(3) have "q \<noteq> p" by auto
      with fr e q show "lookup h' q = lookup h q" by simp
    qed
    have new: "\<forall>j. j < ?N \<longrightarrow>
                       mDataByteSize (mBuffers a' ! j) = mDataByteSize (mBuffers orig ! j)
                       \<and> mNumberChannels (mBuffers a' ! j) = mNumberChannels (mBuffers orig ! j)
                       \<and> lookup h (mData (mBuffers a' ! j)) = None
                       \<and> lookup h' (mData (mBuffers a' ! j))
                           = Some (DataObj (take (unat (mDataByteSize (mBuffers orig ! j)))
                                              (bytesAt h (mData (mBuffers orig ! j)))))"
    proof (intro allI impI)
      fix j assume j: "j < ?N"
      with new2 have n2: "mDataByteSize (mBuffers a' ! j) = mDataByteSize (mBuffers orig ! j)"
        "mNumberChannels (mBuffers a' ! j) = mNumberChannels (mBuffers orig ! j)"
        "lookup h2 (mData (mBuffers a' ! j)) = None"
        "lookup h' (mData (mBuffers a' ! j))
            = Some (DataObj (take (unat (mDataByteSize (mBuffers orig ! j)))
                               (bytesAt h2 (mData (mBuffers orig ! j)))))"
        by simp_all
      from j vd(2) have "readableBuffer h (mBuffers orig ! j)" by simp
      then have "take (unat (mDataByteSize (mBuffers orig ! j))) (bytesAt h2 (mData (mBuffers orig ! j)))
          = take (unat (mDataByteSize (mBuffers orig ! j))) (bytesAt h (mData (mBuffers orig ! j)))"
        using frame2 by (rule frame_readable_all(2))
      with n2 live2 show "mDataByteSize (mBuffers a' ! j) = mDataByteSize (mBuffers orig ! j)
                       \<and> mNumberChannels (mBuffers a' ! j) = mNumberChannels (mBuffers orig ! j)
                       \<and> lookup h (mData (mBuffers a' ! j)) = None
                       \<and> lookup h' (mData (mBuffers a' ! j))
                           = Some (DataObj (take (unat (mDataByteSize (mBuffers orig ! j)))
                                              (bytesAt h (mData (mBuffers orig ! j)))))"
        by simp
    qed
    have cap': "?N \<le> length (mBuffers a')"
      using capa a'(3) by simp
    show ?thesis
      unfolding run res
      using nn ra ok nf' nc' fr' a'(1,4) a'(2) [unfolded l1f] cap' new
      by (auto simp add: p_def)
  qed
qed

section \<open>The release loop\<close>

lemma same_copyBody: "copyBody original audio i h = Inr (ok, h') \<Longrightarrow> sameAllocator h h'"
  unfolding copyBody_def
  by (auto split: if_splits prod.splits elim!: bindE_InrE
      dest!: same_malloc_bytes same_storeBuffer same_freeFirst same_free same_memcpy
      simp add: sameAllocator_def)

lemma same_copyLoop: "copyLoop original audio i h = Inr (r, h') \<Longrightarrow> sameAllocator h h'"
proof (induction original audio i h rule: copyLoop.induct)
  case (1 original audio i h)
  from "1.prems" obtain orig where o: "loadList h original = Inr orig"
    and rest: "(if i < unat (mNumberBuffers orig) then
       bindE (copyBody original audio i h) (\<lambda>(ok, h2).
       if \<not> ok then Inr (NULL, h2)
       else copyLoop original audio (Suc i) h2)
     else Inr (audio, h)) = Inr (r, h')"
    unfolding copyLoop.simps [of original audio i h] by (elim bindE_InrE)
  show ?case
  proof (cases "i < unat (mNumberBuffers orig)")
    case False
    with rest show ?thesis by simp
  next
    case True
    with rest obtain ok h2 where b: "copyBody original audio i h = Inr (ok, h2)"
      and rest2: "(if \<not> ok then Inr (NULL, h2) else copyLoop original audio (Suc i) h2) = Inr (r, h')"
      by (auto elim!: bindE_InrE)
    from b have s2: "sameAllocator h h2" by (rule same_copyBody)
    show ?thesis
    proof (cases ok)
      case False
      with rest2 s2 show ?thesis by simp
    next
      case ok: True
      with rest2 have l: "copyLoop original audio (Suc i) h2 = Inr (r, h')" by simp
      from "1.IH" [OF True _ l] ok have "sameAllocator h2 h'" by simp
      with s2 show ?thesis by (rule sameAllocator_trans)
    qed
  qed
qed

lemma same_AECopy: "AECopyAudioBufferList original h = Inr (r, h') \<Longrightarrow> sameAllocator h h'"
  unfolding AECopyAudioBufferList_def
  by (auto split: prod.splits if_splits elim!: bindE_InrE
      dest!: same_malloc_list same_storeNumberBuffers same_copyLoop simp add: sameAllocator_def)

lemma freeLoop_exit:
  "lookup h p = Some (ListObj l) \<Longrightarrow> \<not> i < unat (mNumberBuffers l) \<Longrightarrow> freeLoop h p i = Inr h"
  by (simp add: freeLoop.simps [of h p i])

lemma freeLoop_spec:
  assumes "lookup h p = Some (ListObj l)"
    and "unat (mNumberBuffers l) \<le> length (mBuffers l)"
    and "ownedSlots h p (filter (\<lambda>b. mData b \<noteq> NULL)
           (drop i (take (unat (mNumberBuffers l)) (mBuffers l))))"
  shows "freeLoop h p i =
     Inr (h\<lparr>blocks := AList.restrict
            (- mData ` set (filter (\<lambda>b. mData b \<noteq> NULL)
                 (drop i (take (unat (mNumberBuffers l)) (mBuffers l))))) (blocks h)\<rparr>)"
  using assms
proof (induction "unat (mNumberBuffers l) - i" arbitrary: i h)
  case 0
  then have "\<not> i < unat (mNumberBuffers l)" by linarith
  moreover from this have "drop i (take (unat (mNumberBuffers l)) (mBuffers l)) = []" by simp
  ultimately show ?case
    using "0.prems"(1) by (simp add: freeLoop_exit)
next
  case (Suc m)
  let ?N = "unat (mNumberBuffers l)"
  let ?b = "mBuffers l ! i"
  let ?rest = "filter (\<lambda>b. mData b \<noteq> NULL) (drop (Suc i) (take ?N (mBuffers l)))"
  from Suc.hyps(2) have lt: "i < ?N" and m: "m = ?N - Suc i" by linarith+
  from lt Suc.prems(2) have il: "i < length (mBuffers l)" by linarith
  have split: "drop i (take ?N (mBuffers l)) = ?b # drop (Suc i) (take ?N (mBuffers l))"
    using lt il by (simp add: Cons_nth_drop_Suc [symmetric])
  have ls: "loadSlot l i = Inr ?b"
    using il by (simp add: loadSlot_def)
  show ?case
  proof (cases "mData ?b = NULL")
    case True
    then have f: "filter (\<lambda>b. mData b \<noteq> NULL) (drop i (take ?N (mBuffers l))) = ?rest"
      unfolding split by simp
    have "freeLoop h p i = freeLoop h p (Suc i)"
      using Suc.prems(1) lt True by (simp add: freeLoop.simps [of h p i] ls)
    also have "\<dots> = Inr (h\<lparr>blocks := AList.restrict (- mData ` set ?rest) (blocks h)\<rparr>)"
      using Suc.prems(1,2) Suc.prems(3) [unfolded f] by (rule Suc.hyps(1) [OF m])
    finally show ?thesis
      unfolding f .
  next
    case False
    then have f: "filter (\<lambda>b. mData b \<noteq> NULL) (drop i (take ?N (mBuffers l))) = ?b # ?rest"
      unfolding split by simp
    let ?h1 = "h\<lparr>blocks := AList.restrict (- {mData ?b}) (blocks h)\<rparr>"
    from Suc.prems(3) have own: "ownedSlots h p (?b # ?rest)"
      unfolding f .
    then have b: "mData ?b \<noteq> p" "mData ?b \<in> fst ` set (blocks h)"
      by (auto simp add: ownedSlots_def)
    have fr: "free h (mData ?b) = Inr ?h1"
      using False b by (simp add: free_live)
    have l1: "lookup ?h1 p = Some (ListObj l)"
      using b Suc.prems(1) by (simp add: lookup_restrict)
    have own1: "ownedSlots ?h1 p ?rest"
      using own by (auto simp add: ownedSlots_def list_all_iff image_iff)
    have "freeLoop h p i = freeLoop ?h1 p (Suc i)"
      using Suc.prems(1) lt False by (simp add: freeLoop.simps [of h p i] ls fr)
    also have "\<dots> = Inr (?h1\<lparr>blocks := AList.restrict (- mData ` set ?rest) (blocks ?h1)\<rparr>)"
      using l1 Suc.prems(2) own1 by (rule Suc.hyps(1) [OF m])
    also have "?h1\<lparr>blocks := AList.restrict (- mData ` set ?rest) (blocks ?h1)\<rparr>
        = h\<lparr>blocks := AList.restrict (- mData ` set (?b # ?rest)) (blocks h)\<rparr>"
    proof -
      have "- mData ` set ?rest \<inter> - {mData ?b} = - mData ` set (?b # ?rest)"
        by auto
      then show ?thesis by simp
    qed
    finally show ?thesis
      unfolding f .
  qed
qed

lemma free_spec:
  assumes "ownedList h p" and "lookup h p = Some (ListObj l)"
  shows "AEFreeAudioBufferList h p =
     Inr (h\<lparr>blocks := AList.restrict
            (- insert p (mData ` set (filter (\<lambda>b. mData b \<noteq> NULL)
                 (take (unat (mNumberBuffers l)) (mBuffers l))))) (blocks h)\<rparr>)"
proof -
  let ?bs = "filter (\<lambda>b. mData b \<noteq> NULL) (take (unat (mNumberBuffers l)) (mBuffers l))"
  let ?h1 = "h\<lparr>blocks := AList.restrict (- mData ` set ?bs) (blocks h)\<rparr>"
  from assms have cap: "unat (mNumberBuffers l) \<le> length (mBuffers l)"
    and own: "ownedSlots h p ?bs"
    by (simp_all add: ownedList_def)
  from assms(2) have p: "p \<noteq> NULL" "p \<in> fst ` set (blocks h)"
    by (auto dest: lookup_SomeD)
  from own have notin: "p \<notin> mData ` set ?bs"
    by (auto simp add: ownedSlots_def list_all_iff)
  have "freeLoop h p 0 = Inr ?h1"
    using freeLoop_spec [OF assms(2) cap, of 0] own by simp
  moreover have "free ?h1 p = Inr (?h1\<lparr>blocks := AList.restrict (- {p}) (blocks ?h1)\<rparr>)"
    using p notin by (simp add: free_live)
  moreover have "- {p} \<inter> - mData ` set ?bs = - insert p (mData ` set ?bs)"
    by auto
  ultimately show ?thesis
    by (simp add: AEFreeAudioBufferList_def)
qed

section \<open>The example heaps\<close>

lemmas eval_examples = stereoHeap_def stereoList_def silentHeap_def silentList_def

lemma validList_stereoHeap: "validList (stereoHeap n) 1"
  by (simp add: validList_def readableBuffer_def lookup_def eval_examples heapFailingAt_def emptyHeap_def)

lemma lookup_stereoHeap: "lookup (stereoHeap n) 1 = Some (ListObj stereoList)"
  by (simp add: lookup_def eval_examples heapFailingAt_def emptyHeap_def)

lemma validList_silentHeap: "validList (silentHeap n) 1"
  by (simp add: validList_def readableBuffer_def lookup_def eval_examples heapFailingAt_def emptyHeap_def)

lemma lookup_silentHeap: "lookup (silentHeap n) 1 = Some (ListObj silentList)"
  by (simp add: lookup_def eval_examples heapFailingAt_def emptyHeap_def)

lemma copy_silentHeap:
  "AECopyAudioBufferList 1 (silentHeap 9) =
       Inr (2, silentHeap 9\<lparr>blocks :=
                 [(4, DataObj []), (3, DataObj []),
                  (2, ListObj \<lparr>mNumberBuffers = 2,
                        mBuffers = [\<lparr>mNumberChannels = 1, mDataByteSize = 0, mData = 3\<rparr>,
                                    \<lparr>mNumberChannels = 1, mDataByteSize = 0, mData = 4\<rparr>]\<rparr>),
                  (1, ListObj silentList)],
               ncalls := 4\<rparr>)"
  by (simp add: AECopyAudioBufferList_def eval_heap eval_examples)

lemma copy_silentHeap_fail:
  "AECopyAudioBufferList 1 (silentHeap 2) = Inr (NULL, silentHeap 2\<lparr>ncalls := 3\<rparr>)"
  by (simp add: AECopyAudioBufferList_def eval_heap eval_examples)

lemma copy_stereoHeap:
  "AECopyAudioBufferList 1 (stereoHeap 9) =
       Inr (4, stereoHeap 9\<lparr>blocks :=
                 [(6, DataObj [5, 6, 7, 8]), (5, DataObj [1, 2, 3, 4]),
                  (4, ListObj \<lparr>mNumberBuffers = 2,
                        mBuffers = [\<lparr>mNumberChannels = 1, mDataByteSize = 4, mData = 5\<rparr>,
                                    \<lparr>mNumberChannels = 1, mDataByteSize = 4, mData = 6\<rparr>]\<rparr>),
                  (3, DataObj [5, 6, 7, 8]), (2, DataObj [1, 2, 3, 4]), (1, ListObj stereoList)],
               ncalls := 6\<rparr>)"
  by (simp add: AECopyAudioBufferList_def eval_heap eval_examples)

section \<open>Allocation\<close>

text \<open>
  C1, amended. For every format whose channel count fits an \<open>int\<close> and every positive
  frame count \<open>F\<close>, \<open>AEAllocateAndInitAudioBufferList\<close> returns without error, and it
  returns a container when none of its allocations fails. A returned container is a new
  block that matches the format: non-interleaved with N channels, it has N buffers of
  1 channel each; interleaved with N channels, it has exactly 1 buffer of N channels.
  The byte size of every buffer is \<open>mBytesPerFrame * F\<close> as the code computes it in 32 bits;
  that is the product of the two numbers when the product is below \<open>2 ^ 32\<close>. When the
  computed size is positive as an \<open>int\<close>, the data pointers of the buffers are pairwise
  distinct blocks that were not live before the call, none of them null or the container,
  each of exactly the recorded byte size; otherwise every data pointer is null. So when the
  product is positive and below \<open>2 ^ 31\<close>, every buffer has its own new block of exactly
  \<open>mBytesPerFrame * F\<close> bytes.
\<close>

theorem allocate_structure:
  assumes "0 \<le> sint (mChannelsPerFrame audioFormat)" and "0 < sint frameCount"
  shows "\<exists>audio h'. AEAllocateAndInitAudioBufferList audioFormat frameCount h = Inr (audio, h')
      \<and> ((\<forall>k \<le> unat (numberOfBuffers audioFormat). \<not> fails h (ncalls h + k)) \<longrightarrow> audio \<noteq> NULL)
      \<and> (audio \<noteq> NULL \<longrightarrow> (\<exists>l. lookup h' audio = Some (ListObj l) \<and> lookup h audio = None
            \<and> (isNonInterleaved audioFormat \<longrightarrow>
                  mNumberBuffers l = mChannelsPerFrame audioFormat
                  \<and> length (mBuffers l) = unat (mChannelsPerFrame audioFormat)
                  \<and> list_all (\<lambda>b. mNumberChannels b = 1) (mBuffers l))
            \<and> (\<not> isNonInterleaved audioFormat \<longrightarrow>
                  mNumberBuffers l = 1 \<and> length (mBuffers l) = 1
                  \<and> list_all (\<lambda>b. mNumberChannels b = mChannelsPerFrame audioFormat) (mBuffers l))
            \<and> list_all (\<lambda>b. mDataByteSize b = mBytesPerFrame audioFormat * frameCount) (mBuffers l)
            \<and> (0 < sint (mBytesPerFrame audioFormat * frameCount) \<longrightarrow>
                  ownedSlots h' audio (mBuffers l)
                  \<and> list_all (\<lambda>b. lookup h (mData b) = None
                        \<and> lookup h' (mData b) = Some (DataObj (replicate (unat (mDataByteSize b)) (junkByte h))))
                      (mBuffers l))
            \<and> (\<not> 0 < sint (mBytesPerFrame audioFormat * frameCount) \<longrightarrow>
                  list_all (\<lambda>b. mData b = NULL) (mBuffers l))
            \<and> (unat (mBytesPerFrame audioFormat) * nat (sint frameCount) < 2 ^ 32 \<longrightarrow>
                  list_all (\<lambda>b. unat (mDataByteSize b)
                        = unat (mBytesPerFrame audioFormat) * nat (sint frameCount)) (mBuffers l))
            \<and> (0 < unat (mBytesPerFrame audioFormat) * nat (sint frameCount)
                \<and> unat (mBytesPerFrame audioFormat) * nat (sint frameCount) < 2 ^ 31 \<longrightarrow>
                  ownedSlots h' audio (mBuffers l)
                  \<and> list_all (\<lambda>b. lookup h (mData b) = None
                        \<and> lookup h' (mData b) = Some (DataObj
                             (replicate (unat (mBytesPerFrame audioFormat) * nat (sint frameCount))
                                (junkByte h))))
                      (mBuffers l))))"
proof -
  let ?n = "numberOfBuffers audioFormat"
  let ?c = "channelsPerBuffer audioFormat"
  let ?b = "bytesPerBuffer audioFormat frameCount"
  let ?P = "unat (mBytesPerFrame audioFormat) * nat (sint frameCount)"
  note v = allocate_valid [OF assms(1)]
  have b_def: "?b = mBytesPerFrame audioFormat * frameCount"
    by (simp add: bytesPerBuffer_def)
  have F: "nat (sint frameCount) = unat frameCount"
    using assms(2) by (intro sint_nonneg_unat) simp
  have idx: "int j < sint ?n \<longleftrightarrow> j < unat ?n" for j
    using v(1,2) by linarith
  from allocate_spec [of audioFormat frameCount h]
  obtain r h' where res: "AEAllocateAndInitAudioBufferList audioFormat frameCount h = Inr (r, h')"
    by (elim exE conjE)
  from allocate_spec [of audioFormat frameCount h]
  have rnull: "r = NULL \<longrightarrow> fails h (ncalls h)
                \<or> (\<exists>k. int k < sint ?n \<and> fails h (Suc (ncalls h) + k))"
    unfolding res by auto
  from allocate_spec [of audioFormat frameCount h]
  have rok: "r \<noteq> NULL \<longrightarrow> r = freshAddr h \<and> (\<exists>l'. lookup h' r = Some (ListObj l')
                  \<and> mNumberBuffers l' = ?n
                  \<and> length (mBuffers l') = slotsIn (listBytes ?n)
                  \<and> (\<forall>j. int j < sint ?n \<longrightarrow>
                        mDataByteSize (mBuffers l' ! j) = ?b
                        \<and> mNumberChannels (mBuffers l' ! j) = ?c
                        \<and> (mData (mBuffers l' ! j) = NULL \<longleftrightarrow> \<not> 0 < sint ?b)))"
    unfolding res by auto
  have A: "r \<noteq> NULL" if nf: "\<forall>k \<le> unat ?n. \<not> fails h (ncalls h + k)"
  proof
    assume "r = NULL"
    with rnull consider "fails h (ncalls h)"
      | k where "int k < sint ?n" "fails h (Suc (ncalls h) + k)" by blast
    then show False
    proof cases
      case 1
      with nf [rule_format, of 0] show False by simp
    next
      case 2
      from 2(1) have "Suc k \<le> unat ?n" by (simp add: idx)
      with nf [rule_format, of "Suc k"] 2(2) show False by simp
    qed
  qed
  have prod: "unat ?b = ?P" if "?P < 2 ^ 32"
    using that unat_mult_lem [of "mBytesPerFrame audioFormat" frameCount]
    by (simp add: b_def F)
  have pos: "0 < sint ?b" if "0 < ?P" "?P < 2 ^ 31"
  proof -
    from that(2) have "?P < 2 ^ 32" by simp
    then have u: "unat ?b = ?P" by (rule prod)
    have "unat ?b < 2 ^ 31"
      unfolding u by (rule that(2))
    then have "sint ?b = int (unat ?b)"
      by (rule sint_small_unat)
    moreover from that(1) have "0 < int (unat ?b)"
      unfolding u by (simp only: of_nat_0_less_iff)
    ultimately show ?thesis by (simp only:)
  qed
  have B: "\<exists>l. lookup h' r = Some (ListObj l) \<and> lookup h r = None
            \<and> (isNonInterleaved audioFormat \<longrightarrow>
                  mNumberBuffers l = mChannelsPerFrame audioFormat
                  \<and> length (mBuffers l) = unat (mChannelsPerFrame audioFormat)
                  \<and> list_all (\<lambda>b. mNumberChannels b = 1) (mBuffers l))
            \<and> (\<not> isNonInterleaved audioFormat \<longrightarrow>
                  mNumberBuffers l = 1 \<and> length (mBuffers l) = 1
                  \<and> list_all (\<lambda>b. mNumberChannels b = mChannelsPerFrame audioFormat) (mBuffers l))
            \<and> list_all (\<lambda>b. mDataByteSize b = ?b) (mBuffers l)
            \<and> (0 < sint ?b \<longrightarrow>
                  ownedSlots h' r (mBuffers l)
                  \<and> list_all (\<lambda>b. lookup h (mData b) = None
                        \<and> lookup h' (mData b) = Some (DataObj (replicate (unat (mDataByteSize b)) (junkByte h))))
                      (mBuffers l))
            \<and> (\<not> 0 < sint ?b \<longrightarrow> list_all (\<lambda>b. mData b = NULL) (mBuffers l))
            \<and> (?P < 2 ^ 32 \<longrightarrow> list_all (\<lambda>b. unat (mDataByteSize b) = ?P) (mBuffers l))
            \<and> (0 < ?P \<and> ?P < 2 ^ 31 \<longrightarrow>
                  ownedSlots h' r (mBuffers l)
                  \<and> list_all (\<lambda>b. lookup h (mData b) = None
                        \<and> lookup h' (mData b) = Some (DataObj (replicate ?P (junkByte h))))
                      (mBuffers l))" if nn: "r \<noteq> NULL"
  proof -
    from nn rok obtain l where ra: "r = freshAddr h" and l: "lookup h' r = Some (ListObj l)"
      "mNumberBuffers l = ?n" "length (mBuffers l) = unat ?n"
      and f: "\<forall>j<unat ?n. mDataByteSize (mBuffers l ! j) = ?b
                        \<and> mNumberChannels (mBuffers l ! j) = ?c
                        \<and> (mData (mBuffers l ! j) = NULL \<longleftrightarrow> \<not> 0 < sint ?b)"
      unfolding v(3) idx by blast
    from ra have fresh: "lookup h r = None" by simp
    have ch: "list_all (\<lambda>b. mNumberChannels b = ?c) (mBuffers l)"
      using f l(3) by (intro nth_all) simp
    have sz: "list_all (\<lambda>b. mDataByteSize b = ?b) (mBuffers l)"
      using f l(3) by (intro nth_all) simp
    have null: "list_all (\<lambda>b. mData b = NULL) (mBuffers l)" if "\<not> 0 < sint ?b"
      using f l(3) that by (intro nth_all) simp
    have store: "ownedSlots h' r (mBuffers l)
                  \<and> list_all (\<lambda>b. lookup h (mData b) = None
                        \<and> lookup h' (mData b) = Some (DataObj (replicate (unat (mDataByteSize b)) (junkByte h))))
                      (mBuffers l)" if bp: "0 < sint ?b"
    proof -
      from allocate_storage [OF res nn bp]
      obtain l2 where l2: "lookup h' r = Some (ListObj l2)"
        and own: "ownedSlots h' r (take (nat (sint ?n)) (mBuffers l2))"
        and blk: "\<forall>j<nat (sint ?n). lookup h (mData (mBuffers l2 ! j)) = None
            \<and> lookup h' (mData (mBuffers l2 ! j))
                = Some (DataObj (replicate (nat (sint ?b)) (junkByte h)))"
        by (elim exE conjE) (rule that)
      from l(1) l2 have eq: "l2 = l" by simp
      from bp have nb: "nat (sint ?b) = unat ?b"
        by (intro sint_nonneg_unat) simp
      from own have "ownedSlots h' r (mBuffers l)"
        unfolding eq v(2) using l(3) by simp
      moreover have "list_all (\<lambda>b. lookup h (mData b) = None
                        \<and> lookup h' (mData b) = Some (DataObj (replicate (unat (mDataByteSize b)) (junkByte h))))
                      (mBuffers l)"
        using blk f l(3) unfolding eq v(2) nb by (intro nth_all) simp
      ultimately show ?thesis by simp
    qed
    have szP: "list_all (\<lambda>b. unat (mDataByteSize b) = ?P) (mBuffers l)" if "?P < 2 ^ 32"
      using sz prod [OF that] by (simp add: list_all_iff)
    have storeP: "ownedSlots h' r (mBuffers l)
                  \<and> list_all (\<lambda>b. lookup h (mData b) = None
                        \<and> lookup h' (mData b) = Some (DataObj (replicate ?P (junkByte h))))
                      (mBuffers l)" if P: "0 < ?P \<and> ?P < 2 ^ 31"
    proof -
      from P have bp: "0 < sint ?b" by (intro pos) simp_all
      from P have "?P < 2 ^ 32" by simp
      then have "unat ?b = ?P" by (rule prod)
      with store [OF bp] sz show ?thesis
        by (simp add: list_all_iff)
    qed
    have struct: "(isNonInterleaved audioFormat \<longrightarrow>
                  mNumberBuffers l = mChannelsPerFrame audioFormat
                  \<and> length (mBuffers l) = unat (mChannelsPerFrame audioFormat)
                  \<and> list_all (\<lambda>b. mNumberChannels b = 1) (mBuffers l))
            \<and> (\<not> isNonInterleaved audioFormat \<longrightarrow>
                  mNumberBuffers l = 1 \<and> length (mBuffers l) = 1
                  \<and> list_all (\<lambda>b. mNumberChannels b = mChannelsPerFrame audioFormat) (mBuffers l))"
      using l ch by (cases "isNonInterleaved audioFormat")
        (simp_all add: numberOfBuffers_def channelsPerBuffer_def)
    from l(1) fresh struct sz store null szP storeP show ?thesis
      by (intro exI [of _ l] conjI impI) simp_all
  qed
  from res A B show ?thesis unfolding b_def by blast
qed

theorem allocate_structure_witness:
  "0 \<le> sint (mChannelsPerFrame stereoNonInterleaved) \<and> 0 < sint (1 :: cint)
   \<and> unat (numberOfBuffers stereoNonInterleaved) = 2
   \<and> \<not> fails emptyHeap (ncalls emptyHeap + 0) \<and> \<not> fails emptyHeap (ncalls emptyHeap + 1)
   \<and> \<not> fails emptyHeap (ncalls emptyHeap + 2)
   \<and> isNonInterleaved stereoNonInterleaved
   \<and> 0 < sint (mBytesPerFrame stereoNonInterleaved * 1)
   \<and> unat (mBytesPerFrame stereoNonInterleaved) * nat (sint (1 :: cint)) = 4
   \<and> AEAllocateAndInitAudioBufferList stereoNonInterleaved 1 emptyHeap =
       Inr (1, emptyHeap\<lparr>blocks :=
                  [(3, DataObj (replicate 4 5)), (2, DataObj (replicate 4 5)),
                   (1, ListObj \<lparr>mNumberBuffers = 2,
                         mBuffers = [\<lparr>mNumberChannels = 1, mDataByteSize = 4, mData = 2\<rparr>,
                                     \<lparr>mNumberChannels = 1, mDataByteSize = 4, mData = 3\<rparr>]\<rparr>)],
                ncalls := 3\<rparr>)"
proof -
  have v: "0 \<le> sint (mChannelsPerFrame stereoNonInterleaved)" "0 < sint (1 :: cint)"
    by simp_all
  from allocate_structure [OF v, of emptyHeap]
  obtain audio h' where run: "AEAllocateAndInitAudioBufferList stereoNonInterleaved 1 emptyHeap = Inr (audio, h')"
    by (elim exE conjE) (rule that)
  have "AEAllocateAndInitAudioBufferList stereoNonInterleaved 1 emptyHeap =
       Inr (1, emptyHeap\<lparr>blocks :=
                  [(3, DataObj (replicate 4 5)), (2, DataObj (replicate 4 5)),
                   (1, ListObj \<lparr>mNumberBuffers = 2,
                         mBuffers = [\<lparr>mNumberChannels = 1, mDataByteSize = 4, mData = 2\<rparr>,
                                     \<lparr>mNumberChannels = 1, mDataByteSize = 4, mData = 3\<rparr>]\<rparr>)],
                ncalls := 3\<rparr>)"
    by (simp add: AEAllocateAndInitAudioBufferList_def eval_heap)
  moreover have "unat (numberOfBuffers stereoNonInterleaved) = 2"
    by (simp add: numberOfBuffers_def)
  moreover have "\<not> fails emptyHeap k" for k
    by (simp add: emptyHeap_def)
  ultimately show ?thesis
    using v run by simp
qed

text \<open>
  Interleaved stereo of 4 bytes per frame and the positive frame count \<open>2 ^ 30 + 1\<close>: the
  product is \<open>2 ^ 32 + 4\<close>, the code computes 4, and the buffer has a byte size of 4 and
  a block of 4 bytes.
\<close>

theorem allocate_structure_counterexample:
  "0 \<le> sint (mChannelsPerFrame stereoInterleaved) \<and> 0 < sint (1073741825 :: cint)
   \<and> \<not> isNonInterleaved stereoInterleaved
   \<and> unat (mBytesPerFrame stereoInterleaved) * nat (sint (1073741825 :: cint)) = 4294967300
   \<and> AEAllocateAndInitAudioBufferList stereoInterleaved 1073741825 emptyHeap =
       Inr (1, emptyHeap\<lparr>blocks :=
                  [(2, DataObj (replicate 4 5)),
                   (1, ListObj \<lparr>mNumberBuffers = 1,
                         mBuffers = [\<lparr>mNumberChannels = 2, mDataByteSize = 4, mData = 2\<rparr>]\<rparr>)],
                ncalls := 2\<rparr>)
   \<and> unat (4 :: UInt32) \<noteq> 4294967300"
  by (simp add: AEAllocateAndInitAudioBufferList_def eval_heap)






section \<open>The frame count query\<close>

text \<open>
  C5, amended. For every container that holds its first descriptor and every format for
  which the divisor \<open>(mBitsPerChannel / 8) * channelCount\<close>, computed in 32 bits, is not
  zero, the query returns the first buffer's byte size divided by that divisor, where the
  channel count is the number of buffers if the format is non-interleaved and otherwise
  the channel count recorded on the first buffer; a supplied output location receives the
  channel count, and the query changes nothing else.
\<close>

theorem frame_count_query:
  assumes "mBuffers list \<noteq> []"
    and "channelCount = (if isNonInterleaved audioFormat then mNumberBuffers list
                         else mNumberChannels (mBuffers list ! 0))"
    and "(mBitsPerChannel audioFormat div 8) * channelCount \<noteq> 0"
  shows "AEGetNumberOfFramesInAudioBufferList list audioFormat oNumberOfChannels =
           Inr (mDataByteSize (mBuffers list ! 0)
                  div ((mBitsPerChannel audioFormat div 8) * channelCount),
                (case oNumberOfChannels of None \<Rightarrow> None | Some v \<Rightarrow> Some channelCount))"
  using assms by (rule frames_eq)

theorem frame_count_query_witness:
  "mBuffers \<lparr>mNumberBuffers = 2,
       mBuffers = [\<lparr>mNumberChannels = 1, mDataByteSize = 400, mData = 7\<rparr>,
                   \<lparr>mNumberChannels = 1, mDataByteSize = 400, mData = 8\<rparr>]\<rparr> \<noteq> []
   \<and> (mBitsPerChannel stereoNonInterleaved div 8) * 2 \<noteq> 0
   \<and> AEGetNumberOfFramesInAudioBufferList
       \<lparr>mNumberBuffers = 2,
          mBuffers = [\<lparr>mNumberChannels = 1, mDataByteSize = 400, mData = 7\<rparr>,
                      \<lparr>mNumberChannels = 1, mDataByteSize = 400, mData = 8\<rparr>]\<rparr>
       stereoNonInterleaved (Some 0) = Inr (100, Some 2)"
  using frame_count_query [of
     "\<lparr>mNumberBuffers = 2,
        mBuffers = [\<lparr>mNumberChannels = 1, mDataByteSize = 400, mData = 7\<rparr>,
                    \<lparr>mNumberChannels = 1, mDataByteSize = 400, mData = 8\<rparr>]\<rparr>"
     2 stereoNonInterleaved "Some 0"]
  by simp

text \<open>
  Bits per channel and channel count are both nonzero, and the query divides by zero:
  4 bits per channel give \<open>4 / 8 = 0\<close>.
\<close>

theorem frame_count_query_counterexample:
  "mBitsPerChannel
      \<lparr>mFormatFlags = 0, mBytesPerFrame = 1, mChannelsPerFrame = 1, mBitsPerChannel = 4\<rparr> \<noteq> 0
   \<and> mNumberChannels \<lparr>mNumberChannels = 1, mDataByteSize = 400, mData = 7\<rparr> \<noteq> 0
   \<and> AEGetNumberOfFramesInAudioBufferList
       \<lparr>mNumberBuffers = 1,
          mBuffers = [\<lparr>mNumberChannels = 1, mDataByteSize = 400, mData = 7\<rparr>]\<rparr>
       \<lparr>mFormatFlags = 0, mBytesPerFrame = 1, mChannelsPerFrame = 1, mBitsPerChannel = 4\<rparr>
       None = Inl DivisionByZero"
  by (simp add: AEGetNumberOfFramesInAudioBufferList_def loadSlot_def isNonInterleaved_def
      kAudioFormatFlagIsNonInterleaved_def)

section \<open>The in-place initialiser\<close>

lemma initLoop_no_assert:
  "initLoop list audioFormat data dataSize i \<noteq> Inl AssertionFailed"
proof (induction list audioFormat data dataSize i rule: initLoop.induct)
  case (1 list audioFormat data dataSize i)
  show ?case
  proof (cases "i < unat (mNumberBuffers list)")
    case False
    then show ?thesis by (simp add: initLoop.simps [of list])
  next
    case True
    show ?thesis
    proof (cases "mBuffers list")
      case Nil
      with True show ?thesis by (simp add: storeSlot_def initLoop.simps [of list])
    next
      case (Cons b bs)
      with True show ?thesis
        using "1.IH" by (simp add: storeSlot_def initLoop.simps [of list])
    qed
  qed
qed

text \<open>
  C4, at a failing input. Non-interleaved stereo over 8 bytes of data at address 1000, in a
  region of two descriptors: every round of the loop writes descriptor 0, which ends with the
  pointer of the last round, \<open>1000 + 1 * (8 / 2)\<close>, and descriptor 1 keeps what the region
  held before.
\<close>

theorem init_writes_first_slot_only:
  "AEInitAudioBufferList
     \<lparr>mNumberBuffers = 7,
        mBuffers = [\<lparr>mNumberChannels = 9, mDataByteSize = 9, mData = 9\<rparr>,
                    \<lparr>mNumberChannels = 9, mDataByteSize = 9, mData = 9\<rparr>]\<rparr>
     40 stereoNonInterleaved 1000 8
   = Inr \<lparr>mNumberBuffers = 2,
            mBuffers = [\<lparr>mNumberChannels = 1, mDataByteSize = 4, mData = 1004\<rparr>,
                        \<lparr>mNumberChannels = 9, mDataByteSize = 9, mData = 9\<rparr>]\<rparr>"
  by (simp add: AEInitAudioBufferList_def sizes size_t_of_int_def storeSlot_def initLoop.simps)

text \<open>
  C7, amended. For every call whose computed buffer count exceeds 1, the assertion fails
  exactly when the region size, converted to \<open>size_t\<close>, is below
  \<open>sizeof(AudioBufferList)+sizeof(AudioBuffer)\<close>, the size of a container of two
  descriptors; so a region size large enough for the computed buffer count never trips the
  assertion, and a region too small for two descriptors is reported by assertion failure,
  not by a returned error.
\<close>

theorem init_assertion:
  assumes "1 < unat (numberOfBuffers audioFormat)"
  shows "(AEInitAudioBufferList list listSize audioFormat data dataSize = Inl AssertionFailed
          \<longleftrightarrow> size_t_of_int (sint listSize) < sizeof_AudioBufferList + sizeof_AudioBuffer)
       \<and> (0 \<le> sint listSize
          \<and> sizeof_AudioBufferList + (unat (numberOfBuffers audioFormat) - 1) * sizeof_AudioBuffer
               \<le> nat (sint listSize)
          \<longrightarrow> AEInitAudioBufferList list listSize audioFormat data dataSize \<noteq> Inl AssertionFailed)"
proof -
  let ?n = "numberOfBuffers audioFormat"
  let ?r = "AEInitAudioBufferList list listSize audioFormat data dataSize"
  from assms have n1: "?n \<noteq> 1" by auto
  have iff: "?r = Inl AssertionFailed
      \<longleftrightarrow> size_t_of_int (sint listSize) < sizeof_AudioBufferList + sizeof_AudioBuffer"
    using n1 initLoop_no_assert
    by (auto simp add: AEInitAudioBufferList_def numberOfBuffers_def Let_def)
  have "?r \<noteq> Inl AssertionFailed"
    if "0 \<le> sint listSize"
      and "sizeof_AudioBufferList + (unat ?n - 1) * sizeof_AudioBuffer \<le> nat (sint listSize)"
  proof -
    have "sint listSize < 2 ^ 64"
      using sint_lt [of listSize] by simp
    with that(1) have "size_t_of_int (sint listSize) = nat (sint listSize)"
      by (simp add: size_t_of_int_def)
    then show ?thesis
      using that(2) assms iff by (simp add: sizes)
  qed
  with iff show ?thesis by blast
qed

theorem init_assertion_witness:
  "1 < unat (numberOfBuffers stereoNonInterleaved)
   \<and> (0::int) \<le> sint (40 :: cint)
   \<and> sizeof_AudioBufferList + (unat (numberOfBuffers stereoNonInterleaved) - 1) * sizeof_AudioBuffer
        \<le> nat (sint (40 :: cint))
   \<and> AEInitAudioBufferList \<lparr>mNumberBuffers = 7, mBuffers = []\<rparr> 40 stereoNonInterleaved 1000 8
        \<noteq> Inl AssertionFailed
   \<and> AEInitAudioBufferList \<lparr>mNumberBuffers = 7, mBuffers = []\<rparr> 39 stereoNonInterleaved 1000 8
        = Inl AssertionFailed"
  using init_assertion [of stereoNonInterleaved "\<lparr>mNumberBuffers = 7, mBuffers = []\<rparr>" 40 1000 8]
    init_assertion [of stereoNonInterleaved "\<lparr>mNumberBuffers = 7, mBuffers = []\<rparr>" 39 1000 8]
  by (simp add: numberOfBuffers_def sizes size_t_of_int_def)

text \<open>
  Three channels need \<open>24 + 2 * 16 = 56\<close> bytes of descriptors. With a region of 40 bytes the
  assertion passes and the call returns.
\<close>

theorem init_assertion_counterexample:
  "unat (numberOfBuffers
      \<lparr>mFormatFlags = 32, mBytesPerFrame = 4, mChannelsPerFrame = 3, mBitsPerChannel = 16\<rparr>) = 3
   \<and> nat (sint (40 :: cint)) < sizeof_AudioBufferList + (3 - 1) * sizeof_AudioBuffer
   \<and> AEInitAudioBufferList
       \<lparr>mNumberBuffers = 7,
          mBuffers = [\<lparr>mNumberChannels = 9, mDataByteSize = 9, mData = 9\<rparr>,
                      \<lparr>mNumberChannels = 9, mDataByteSize = 9, mData = 9\<rparr>]\<rparr>
       40 \<lparr>mFormatFlags = 32, mBytesPerFrame = 4, mChannelsPerFrame = 3, mBitsPerChannel = 16\<rparr>
       1000 9
     = Inr \<lparr>mNumberBuffers = 3,
              mBuffers = [\<lparr>mNumberChannels = 1, mDataByteSize = 3, mData = 1006\<rparr>,
                          \<lparr>mNumberChannels = 9, mDataByteSize = 9, mData = 9\<rparr>]\<rparr>"
  by (simp add: AEInitAudioBufferList_def numberOfBuffers_def isNonInterleaved_def
      kAudioFormatFlagIsNonInterleaved_def sizes size_t_of_int_def storeSlot_def initLoop.simps)

section \<open>Failure of a backing allocation\<close>

text \<open>
  C2. When the allocation of the container has succeeded and the allocation of the backing
  storage of buffer \<open>k\<close> is the first one to fail, \<open>AEAllocateAndInitAudioBufferList\<close>
  (for a format and a frame count with a positive size per buffer) and
  \<open>AECopyAudioBufferList\<close> (for a readable source container) return \<open>NULL\<close> and leave the
  heap as it was before the call: the buffers of the indices below \<open>k\<close> and the container
  have been released, every block that was live is unchanged, and only the count of the
  calls of the allocator has moved.
\<close>

theorem failure_releases_allocations:
  "(0 < sint (bytesPerBuffer audioFormat frameCount) \<and> \<not> fails h (ncalls h)
      \<and> int k < sint (numberOfBuffers audioFormat)
      \<and> (\<forall>j<k. \<not> fails h (Suc (ncalls h) + j)) \<and> fails h (Suc (ncalls h) + k)
    \<longrightarrow> (\<exists>c. AEAllocateAndInitAudioBufferList audioFormat frameCount h = Inr (NULL, h\<lparr>ncalls := c\<rparr>)))
   \<and> (validList h original \<and> lookup h original = Some (ListObj orig) \<and> \<not> fails h (ncalls h)
      \<and> k < unat (mNumberBuffers orig)
      \<and> (\<forall>j<k. \<not> fails h (Suc (ncalls h) + j)) \<and> fails h (Suc (ncalls h) + k)
    \<longrightarrow> (\<exists>c. AECopyAudioBufferList original h = Inr (NULL, h\<lparr>ncalls := c\<rparr>)))"
proof (intro conjI impI; elim conjE)
  let ?n = "numberOfBuffers audioFormat"
  let ?b = "bytesPerBuffer audioFormat frameCount"
  assume b: "0 < sint ?b" and k: "int k < sint ?n" "fails h (Suc (ncalls h) + k)"
  from allocate_spec [of audioFormat frameCount h]
  obtain r h' where res: "AEAllocateAndInitAudioBufferList audioFormat frameCount h = Inr (r, h')"
    by (elim exE conjE)
  from allocate_spec [of audioFormat frameCount h]
  have rnull: "r = NULL \<longrightarrow> blocks h' = blocks h"
    and rok: "r \<noteq> NULL \<longrightarrow> (0 < sint ?b \<longrightarrow> (\<forall>k. int k < sint ?n \<longrightarrow> \<not> fails h (Suc (ncalls h) + k)))"
    unfolding res by auto
  from rok b k have r: "r = NULL" by blast
  with rnull have "blocks h' = blocks h" by simp
  moreover from res have "sameAllocator h h'" by (rule same_AEAllocate)
  ultimately have "h' = h\<lparr>ncalls := ncalls h'\<rparr>" by (rule heap_eqI)
  with res r have "AEAllocateAndInitAudioBufferList audioFormat frameCount h
      = Inr (NULL, h\<lparr>ncalls := ncalls h'\<rparr>)" by simp
  then show "\<exists>c. AEAllocateAndInitAudioBufferList audioFormat frameCount h = Inr (NULL, h\<lparr>ncalls := c\<rparr>)"
    by blast
next
  assume v: "validList h original" and o: "lookup h original = Some (ListObj orig)"
    and k: "k < unat (mNumberBuffers orig)" "fails h (Suc (ncalls h) + k)"
  from copy_spec [OF v o]
  obtain r h' where res: "AECopyAudioBufferList original h = Inr (r, h')"
    by (elim exE conjE)
  from copy_spec [OF v o]
  have rnull: "r = NULL \<longrightarrow> blocks h' = blocks h"
    and rok: "r \<noteq> NULL \<longrightarrow> (\<forall>k. k < unat (mNumberBuffers orig) \<longrightarrow> \<not> fails h (Suc (ncalls h) + k))"
    unfolding res by auto
  from rok k have r: "r = NULL" by blast
  with rnull have "blocks h' = blocks h" by simp
  moreover from res have "sameAllocator h h'" by (rule same_AECopy)
  ultimately have "h' = h\<lparr>ncalls := ncalls h'\<rparr>" by (rule heap_eqI)
  with res r have "AECopyAudioBufferList original h = Inr (NULL, h\<lparr>ncalls := ncalls h'\<rparr>)" by simp
  then show "\<exists>c. AECopyAudioBufferList original h = Inr (NULL, h\<lparr>ncalls := c\<rparr>)"
    by blast
qed

theorem failure_releases_allocations_witness:
  "0 < sint (bytesPerBuffer stereoNonInterleaved 1)
   \<and> \<not> fails (heapFailingAt 2) (ncalls (heapFailingAt 2))
   \<and> int 1 < sint (numberOfBuffers stereoNonInterleaved)
   \<and> \<not> fails (heapFailingAt 2) (Suc (ncalls (heapFailingAt 2)) + 0)
   \<and> fails (heapFailingAt 2) (Suc (ncalls (heapFailingAt 2)) + 1)
   \<and> AEAllocateAndInitAudioBufferList stereoNonInterleaved 1 (heapFailingAt 2)
        = Inr (NULL, heapFailingAt 2\<lparr>ncalls := 3\<rparr>)
   \<and> validList (stereoHeap 5) 1
   \<and> lookup (stereoHeap 5) 1 = Some (ListObj stereoList)
   \<and> \<not> fails (stereoHeap 5) (ncalls (stereoHeap 5))
   \<and> 1 < unat (mNumberBuffers stereoList)
   \<and> \<not> fails (stereoHeap 5) (Suc (ncalls (stereoHeap 5)) + 0)
   \<and> fails (stereoHeap 5) (Suc (ncalls (stereoHeap 5)) + 1)
   \<and> AECopyAudioBufferList 1 (stereoHeap 5) = Inr (NULL, stereoHeap 5\<lparr>ncalls := 6\<rparr>)"
  using failure_releases_allocations [of stereoNonInterleaved 1 "heapFailingAt 2" 1 1 stereoList]
    failure_releases_allocations [of stereoNonInterleaved 1 "stereoHeap 5" 1 1 stereoList]
    validList_stereoHeap [of 5]
  by (simp add: AEAllocateAndInitAudioBufferList_def AECopyAudioBufferList_def eval_heap
      eval_examples AList.restrict_eq)

section \<open>Copying\<close>

text \<open>
  C3. For a readable container, \<open>AECopyAudioBufferList\<close> returns, and every block that was
  live before the call, the original and its storage among them, is unchanged after it, on
  success and on failure. On success the result is a new container, not the original, with
  the same buffer count; its buffers have the byte sizes and the channel counts of the
  source, their storage consists of pairwise distinct blocks that were not live before the
  call, and each holds the bytes of the source buffer.
\<close>

theorem copy_is_deep:
  assumes "validList h original" and "lookup h original = Some (ListObj orig)"
  shows "\<exists>r h'. AECopyAudioBufferList original h = Inr (r, h')
     \<and> (\<forall>q. lookup h q \<noteq> None \<longrightarrow> lookup h' q = lookup h q)
     \<and> (r \<noteq> NULL \<longrightarrow> r \<noteq> original
           \<and> (\<exists>copy. lookup h' r = Some (ListObj copy)
                 \<and> mNumberBuffers copy = mNumberBuffers orig
                 \<and> unat (mNumberBuffers orig) \<le> length (mBuffers copy)
                 \<and> ownedSlots h' r (take (unat (mNumberBuffers orig)) (mBuffers copy))
                 \<and> (\<forall>j. j < unat (mNumberBuffers orig) \<longrightarrow>
                       mDataByteSize (mBuffers copy ! j) = mDataByteSize (mBuffers orig ! j)
                       \<and> mNumberChannels (mBuffers copy ! j) = mNumberChannels (mBuffers orig ! j)
                       \<and> lookup h (mData (mBuffers copy ! j)) = None
                       \<and> bytesAt h' (mData (mBuffers copy ! j))
                           = take (unat (mDataByteSize (mBuffers orig ! j)))
                               (bytesAt h (mData (mBuffers orig ! j))))))"
proof -
  let ?N = "unat (mNumberBuffers orig)"
  from copy_spec [OF assms]
  obtain r h' where res: "AECopyAudioBufferList original h = Inr (r, h')"
    and rnull: "r = NULL \<longrightarrow> blocks h' = blocks h
           \<and> (fails h (ncalls h)
               \<or> (\<exists>k. k < ?N \<and> fails h (Suc (ncalls h) + k)))"
    and rok: "r \<noteq> NULL \<longrightarrow> r = freshAddr h \<and> \<not> fails h (ncalls h)
           \<and> (\<forall>k. k < ?N \<longrightarrow> \<not> fails h (Suc (ncalls h) + k))
           \<and> ncalls h' = Suc (ncalls h) + ?N
           \<and> (\<forall>q. lookup h q \<noteq> None \<longrightarrow> lookup h' q = lookup h q)
           \<and> (\<exists>a'. lookup h' r = Some (ListObj a')
                 \<and> mNumberBuffers a' = mNumberBuffers orig
                 \<and> ?N \<le> length (mBuffers a')
                 \<and> ownedSlots h' r (take ?N (mBuffers a'))
                 \<and> (\<forall>j. j < ?N \<longrightarrow>
                       mDataByteSize (mBuffers a' ! j) = mDataByteSize (mBuffers orig ! j)
                       \<and> mNumberChannels (mBuffers a' ! j) = mNumberChannels (mBuffers orig ! j)
                       \<and> lookup h (mData (mBuffers a' ! j)) = None
                       \<and> lookup h' (mData (mBuffers a' ! j))
                           = Some (DataObj (take (unat (mDataByteSize (mBuffers orig ! j)))
                                              (bytesAt h (mData (mBuffers orig ! j)))))))"
    by (elim exE conjE) (rule that)
  have frame: "\<forall>q. lookup h q \<noteq> None \<longrightarrow> lookup h' q = lookup h q"
  proof (cases "r = NULL")
    case True
    with rnull have "blocks h' = blocks h" by simp
    then show ?thesis by (simp add: lookup_def)
  next
    case False
    with rok show ?thesis by blast
  qed
  have deep: "r \<noteq> original
           \<and> (\<exists>copy. lookup h' r = Some (ListObj copy)
                 \<and> mNumberBuffers copy = mNumberBuffers orig
                 \<and> ?N \<le> length (mBuffers copy)
                 \<and> ownedSlots h' r (take ?N (mBuffers copy))
                 \<and> (\<forall>j. j < ?N \<longrightarrow>
                       mDataByteSize (mBuffers copy ! j) = mDataByteSize (mBuffers orig ! j)
                       \<and> mNumberChannels (mBuffers copy ! j) = mNumberChannels (mBuffers orig ! j)
                       \<and> lookup h (mData (mBuffers copy ! j)) = None
                       \<and> bytesAt h' (mData (mBuffers copy ! j))
                           = take (unat (mDataByteSize (mBuffers orig ! j)))
                               (bytesAt h (mData (mBuffers orig ! j)))))" if nn: "r \<noteq> NULL"
  proof -
    from rok [THEN mp, OF nn]
    obtain a' where ra: "r = freshAddr h"
      and a': "lookup h' r = Some (ListObj a')" "mNumberBuffers a' = mNumberBuffers orig"
        "?N \<le> length (mBuffers a')" "ownedSlots h' r (take ?N (mBuffers a'))"
      and new: "\<forall>j. j < ?N \<longrightarrow>
                       mDataByteSize (mBuffers a' ! j) = mDataByteSize (mBuffers orig ! j)
                       \<and> mNumberChannels (mBuffers a' ! j) = mNumberChannels (mBuffers orig ! j)
                       \<and> lookup h (mData (mBuffers a' ! j)) = None
                       \<and> lookup h' (mData (mBuffers a' ! j))
                           = Some (DataObj (take (unat (mDataByteSize (mBuffers orig ! j)))
                                              (bytesAt h (mData (mBuffers orig ! j)))))"
      by (elim exE conjE) (rule that)
    from ra assms(2) have "r \<noteq> original" by auto
    moreover have "\<forall>j. j < ?N \<longrightarrow>
                       mDataByteSize (mBuffers a' ! j) = mDataByteSize (mBuffers orig ! j)
                       \<and> mNumberChannels (mBuffers a' ! j) = mNumberChannels (mBuffers orig ! j)
                       \<and> lookup h (mData (mBuffers a' ! j)) = None
                       \<and> bytesAt h' (mData (mBuffers a' ! j))
                           = take (unat (mDataByteSize (mBuffers orig ! j)))
                               (bytesAt h (mData (mBuffers orig ! j)))"
      using new by (simp add: bytesAt_def)
    ultimately show ?thesis
      using a' by blast
  qed
  from res frame deep show ?thesis by blast
qed

theorem copy_is_deep_witness:
  "validList (stereoHeap 9) 1
   \<and> lookup (stereoHeap 9) 1 = Some (ListObj stereoList)
   \<and> AECopyAudioBufferList 1 (stereoHeap 9) =
       Inr (4, stereoHeap 9\<lparr>blocks :=
                 [(6, DataObj [5, 6, 7, 8]), (5, DataObj [1, 2, 3, 4]),
                  (4, ListObj \<lparr>mNumberBuffers = 2,
                        mBuffers = [\<lparr>mNumberChannels = 1, mDataByteSize = 4, mData = 5\<rparr>,
                                    \<lparr>mNumberChannels = 1, mDataByteSize = 4, mData = 6\<rparr>]\<rparr>),
                  (3, DataObj [5, 6, 7, 8]), (2, DataObj [1, 2, 3, 4]), (1, ListObj stereoList)],
               ncalls := 6\<rparr>)
   \<and> (4 :: addr) \<noteq> NULL \<and> (1 :: nat) < unat (mNumberBuffers stereoList)"
proof -
  from copy_is_deep [OF validList_stereoHeap lookup_stereoHeap, of 9]
  obtain r h' where run: "AECopyAudioBufferList 1 (stereoHeap 9) = Inr (r, h')"
    by (elim exE conjE) (rule that)
  from run copy_stereoHeap validList_stereoHeap [of 9] lookup_stereoHeap [of 9]
  show ?thesis by (simp add: stereoList_def)
qed

text \<open>
  C10. A buffer of the source with a null data pointer and a byte size of zero does not stay
  null in the copy: \<open>AECopyAudioBufferList\<close> calls the allocator for it, returns \<open>NULL\<close>
  when that call fails, and on success the buffer of the copy points to a new block of no
  bytes where the source had the null pointer.
\<close>

theorem copy_replaces_null_data:
  assumes "validList h original" and "lookup h original = Some (ListObj orig)"
    and "k < unat (mNumberBuffers orig)"
    and "mData (mBuffers orig ! k) = NULL" and "mDataByteSize (mBuffers orig ! k) = 0"
  shows "\<exists>r h'. AECopyAudioBufferList original h = Inr (r, h')
     \<and> (fails h (Suc (ncalls h) + k) \<longrightarrow> r = NULL)
     \<and> (r \<noteq> NULL \<longrightarrow> ncalls h' = Suc (ncalls h) + unat (mNumberBuffers orig)
           \<and> (\<exists>copy. lookup h' r = Some (ListObj copy)
                 \<and> mDataByteSize (mBuffers copy ! k) = 0
                 \<and> mData (mBuffers copy ! k) \<noteq> NULL
                 \<and> lookup h (mData (mBuffers copy ! k)) = None
                 \<and> lookup h' (mData (mBuffers copy ! k)) = Some (DataObj [])))"
proof -
  let ?N = "unat (mNumberBuffers orig)"
  from copy_spec [OF assms(1,2)]
  obtain r h' where res: "AECopyAudioBufferList original h = Inr (r, h')"
    and rnull: "r = NULL \<longrightarrow> blocks h' = blocks h
           \<and> (fails h (ncalls h)
               \<or> (\<exists>k. k < ?N \<and> fails h (Suc (ncalls h) + k)))"
    and rok: "r \<noteq> NULL \<longrightarrow> r = freshAddr h \<and> \<not> fails h (ncalls h)
           \<and> (\<forall>k. k < ?N \<longrightarrow> \<not> fails h (Suc (ncalls h) + k))
           \<and> ncalls h' = Suc (ncalls h) + ?N
           \<and> (\<forall>q. lookup h q \<noteq> None \<longrightarrow> lookup h' q = lookup h q)
           \<and> (\<exists>a'. lookup h' r = Some (ListObj a')
                 \<and> mNumberBuffers a' = mNumberBuffers orig
                 \<and> ?N \<le> length (mBuffers a')
                 \<and> ownedSlots h' r (take ?N (mBuffers a'))
                 \<and> (\<forall>j. j < ?N \<longrightarrow>
                       mDataByteSize (mBuffers a' ! j) = mDataByteSize (mBuffers orig ! j)
                       \<and> mNumberChannels (mBuffers a' ! j) = mNumberChannels (mBuffers orig ! j)
                       \<and> lookup h (mData (mBuffers a' ! j)) = None
                       \<and> lookup h' (mData (mBuffers a' ! j))
                           = Some (DataObj (take (unat (mDataByteSize (mBuffers orig ! j)))
                                              (bytesAt h (mData (mBuffers orig ! j)))))))"
    by (elim exE conjE) (rule that)
  have A: "r = NULL" if "fails h (Suc (ncalls h) + k)"
  proof (rule ccontr)
    assume "r \<noteq> NULL"
    with rok have "\<forall>k. k < ?N \<longrightarrow> \<not> fails h (Suc (ncalls h) + k)" by blast
    with assms(3) that show False by blast
  qed
  have B: "ncalls h' = Suc (ncalls h) + ?N
           \<and> (\<exists>copy. lookup h' r = Some (ListObj copy)
                 \<and> mDataByteSize (mBuffers copy ! k) = 0
                 \<and> mData (mBuffers copy ! k) \<noteq> NULL
                 \<and> lookup h (mData (mBuffers copy ! k)) = None
                 \<and> lookup h' (mData (mBuffers copy ! k)) = Some (DataObj []))" if nn: "r \<noteq> NULL"
  proof -
    from rok [THEN mp, OF nn]
    obtain a' where nc: "ncalls h' = Suc (ncalls h) + ?N"
      and a': "lookup h' r = Some (ListObj a')" "?N \<le> length (mBuffers a')"
        "ownedSlots h' r (take ?N (mBuffers a'))"
      and new: "\<forall>j. j < ?N \<longrightarrow>
                       mDataByteSize (mBuffers a' ! j) = mDataByteSize (mBuffers orig ! j)
                       \<and> mNumberChannels (mBuffers a' ! j) = mNumberChannels (mBuffers orig ! j)
                       \<and> lookup h (mData (mBuffers a' ! j)) = None
                       \<and> lookup h' (mData (mBuffers a' ! j))
                           = Some (DataObj (take (unat (mDataByteSize (mBuffers orig ! j)))
                                              (bytesAt h (mData (mBuffers orig ! j)))))"
      by (elim exE conjE) (rule that)
    from new assms(3,5) have k: "mDataByteSize (mBuffers a' ! k) = 0"
      "lookup h (mData (mBuffers a' ! k)) = None"
      "lookup h' (mData (mBuffers a' ! k)) = Some (DataObj [])"
      by simp_all
    from k(3) have "mData (mBuffers a' ! k) \<noteq> NULL"
      by (auto dest: lookup_SomeD)
    with nc a'(1) k show ?thesis by blast
  qed
  from res A B show ?thesis by blast
qed

theorem copy_replaces_null_data_witness:
  "validList (silentHeap 9) 1
   \<and> lookup (silentHeap 9) 1 = Some (ListObj silentList)
   \<and> 0 < unat (mNumberBuffers silentList)
   \<and> mData (mBuffers silentList ! 0) = NULL \<and> mDataByteSize (mBuffers silentList ! 0) = 0
   \<and> AECopyAudioBufferList 1 (silentHeap 9) =
       Inr (2, silentHeap 9\<lparr>blocks :=
                 [(4, DataObj []), (3, DataObj []),
                  (2, ListObj \<lparr>mNumberBuffers = 2,
                        mBuffers = [\<lparr>mNumberChannels = 1, mDataByteSize = 0, mData = 3\<rparr>,
                                    \<lparr>mNumberChannels = 1, mDataByteSize = 0, mData = 4\<rparr>]\<rparr>),
                  (1, ListObj silentList)],
               ncalls := 4\<rparr>)
   \<and> fails (silentHeap 2) (Suc (ncalls (silentHeap 2)) + 0)
   \<and> AECopyAudioBufferList 1 (silentHeap 2) = Inr (NULL, silentHeap 2\<lparr>ncalls := 3\<rparr>)"
proof -
  have k: "0 < unat (mNumberBuffers silentList)" "mData (mBuffers silentList ! 0) = NULL"
    "mDataByteSize (mBuffers silentList ! 0) = 0"
    by (simp_all add: silentList_def)
  have f: "fails (silentHeap 2) (Suc (ncalls (silentHeap 2)) + 0)"
    by (simp add: silentHeap_def heapFailingAt_def emptyHeap_def)
  from copy_replaces_null_data [OF validList_silentHeap lookup_silentHeap k, of 2]
  obtain r h' where run: "AECopyAudioBufferList 1 (silentHeap 2) = Inr (r, h')"
    and null: "fails (silentHeap 2) (Suc (ncalls (silentHeap 2)) + 0) \<longrightarrow> r = NULL"
    by (elim exE conjE) (rule that)
  from null f have "r = NULL" by simp
  with run copy_silentHeap_fail have "h' = silentHeap 2\<lparr>ncalls := 3\<rparr>" by simp
  with run \<open>r = NULL\<close> k f copy_silentHeap validList_silentHeap [of 9] lookup_silentHeap [of 9]
  show ?thesis by simp
qed

section \<open>Release\<close>

text \<open>
  C9. For an owned container, \<open>AEFreeAudioBufferList\<close> returns without an error, and the
  blocks it has freed are those of the non-null data pointers of the buffers and the one of
  the container; the buffers with a null data pointer are skipped, and every other block
  stays as it was.
\<close>

theorem release_frees_owned:
  assumes "ownedList h bufferList" and "lookup h bufferList = Some (ListObj l)"
  shows "AEFreeAudioBufferList h bufferList =
     Inr (h\<lparr>blocks := AList.restrict
            (- insert bufferList (mData ` set (filter (\<lambda>b. mData b \<noteq> NULL)
                 (take (unat (mNumberBuffers l)) (mBuffers l))))) (blocks h)\<rparr>)"
  using assms by (rule free_spec)

theorem release_frees_owned_witness:
  "ownedList (silentHeap 9) 1
   \<and> lookup (silentHeap 9) 1 = Some (ListObj silentList)
   \<and> AEFreeAudioBufferList (silentHeap 9) 1 = Inr (silentHeap 9\<lparr>blocks := []\<rparr>)
   \<and> ownedList (stereoHeap 9) 1
   \<and> AEFreeAudioBufferList (stereoHeap 9) 1 = Inr (stereoHeap 9\<lparr>blocks := []\<rparr>)"
proof -
  have a: "ownedList (silentHeap 9) 1"
    and b: "lookup (silentHeap 9) 1 = Some (ListObj silentList)"
    and c: "ownedList (stereoHeap 9) 1"
    by (simp_all add: ownedList_def ownedSlots_def lookup_def eval_examples heapFailingAt_def emptyHeap_def)
  from release_frees_owned [OF a b] release_frees_owned [OF c lookup_stereoHeap]
  have "AEFreeAudioBufferList (silentHeap 9) 1 = Inr (silentHeap 9\<lparr>blocks := []\<rparr>)"
    and "AEFreeAudioBufferList (stereoHeap 9) 1 = Inr (stereoHeap 9\<lparr>blocks := []\<rparr>)"
    by (simp_all add: eval_examples AList.restrict_eq)
  with a b c show ?thesis by simp
qed

end
